theory Spec2Isabelle
  imports Complex_Main "HOL-Library.Word" "HOL-Library.Multiset" "HOL-Library.AList"
begin

unbundle bit_operations_syntax

section \<open>Panics\<close>

text \<open>
  A Go \<^verbatim>\<open>panic\<close> is a value of type \<open>panic\<close>; a function that may panic returns
  \<open>panic + 'a\<close>, with \<open>Inl\<close> for the panic.
\<close>

datatype panic =
    ResolutionNotPowerOfTwo
  | AssignToNilMap
  | SolidOutsideBounds
  | IndexOutOfRange
  | ConstraintNotInMesh
  | GuessKeyNotInMesh
  | MissingEdgeWeight
  | NegativeWeight
  | TotalWeightNotOne
  | MeshNeedsRepair
  | CoordinateNotMisaligned

section \<open>BuildAutomaticUVMap: the resolution check\<close>

text \<open>
  \<^verbatim>\<open>
  foundPower := false
  for i := 0; i < 32; i++ {
      if 1<<uint(i) == resolution { foundPower = true; break }
  }
  if !foundPower { panic("resolution must be power of 2") }
  \<close>
  The argument \<open>resolution\<close> is a Go \<open>int\<close>, 64 bits wide on the platforms the library is
  built for; the constant \<open>1\<close> takes that type, so the shift is \<open>push_bit i 1\<close> on a 64-bit
  word. The loop counter runs from its start value up to 32.
\<close>

function foundPower_from :: "nat \<Rightarrow> 64 word \<Rightarrow> bool" where
  "foundPower_from i resolution =
     (if i < 32 then
        (if push_bit i (1 :: 64 word) = resolution then True
         else foundPower_from (Suc i) resolution)
      else False)"
  by pat_completeness auto
termination
  by (relation "measure (\<lambda>(i, resolution). 32 - i)") auto

definition foundPower :: "64 word \<Rightarrow> bool" where
  "foundPower resolution = foundPower_from 0 resolution"

text \<open>
  Everything \<open>BuildAutomaticUVMap\<close> does after the check (splitting the mesh into plane
  graphs, parameterizing and packing them) is the parameter \<open>body\<close>; it is only reached
  when the check has passed.
\<close>

definition BuildAutomaticUVMap ::
  "('m \<Rightarrow> 64 word \<Rightarrow> bool \<Rightarrow> panic + 'uv) \<Rightarrow> 'm \<Rightarrow> 64 word \<Rightarrow> bool \<Rightarrow> panic + 'uv" where
  "BuildAutomaticUVMap body m resolution verbose =
     (if \<not> foundPower resolution then Inl ResolutionNotPowerOfTwo
      else body m resolution verbose)"

section \<open>The coordinate hash map family\<close>

text \<open>
  A Go map is an association list with distinct keys: \<open>map_of\<close> reads it,
  \<open>AList.update\<close> assigns, \<open>AList.delete\<close> deletes and \<open>length\<close> is \<open>len\<close>. The order of
  the list is the order in which \<^verbatim>\<open>range\<close> visits the entries. A nil map is \<open>None\<close>: it reads
  as empty, and assigning to it panics.

  \<open>CoordMap\<close>, \<open>CoordToFaces\<close> and the other maps of the file are instances of one template;
  the model is polymorphic in the key \<open>'k\<close> (a coordinate or an edge) and the value \<open>'v\<close>.
  The hash function \<^verbatim>\<open>fastHash64\<close> is not part of the sources; it is the parameter
  \<open>hash\<close>, any function from keys to 64-bit words. Keys are compared with HOL equality.
\<close>

record ('k, 'v) cellForCoordMap =
  Key :: 'k
  Value :: 'v

record ('k, 'v) CoordMap =
  slowMap :: "('k \<times> 'v) list option"
  fastMap :: "(64 word \<times> ('k, 'v) cellForCoordMap) list option"

definition NewCoordMap :: "('k, 'v) CoordMap" where
  "NewCoordMap = \<lparr>slowMap = None, fastMap = Some []\<rparr>"

definition Len :: "('k, 'v) CoordMap \<Rightarrow> nat" where
  "Len m =
     (case fastMap m of
        Some fm \<Rightarrow> length fm
      | None \<Rightarrow> (case slowMap m of None \<Rightarrow> 0 | Some sm \<Rightarrow> length sm))"

definition Load :: "('k \<Rightarrow> 64 word) \<Rightarrow> ('k, 'v) CoordMap \<Rightarrow> 'k \<Rightarrow> 'v option" where
  "Load hash m key =
     (case fastMap m of
        Some fm \<Rightarrow>
          (case map_of fm (hash key) of
             None \<Rightarrow> None
           | Some cell \<Rightarrow> if Key cell \<noteq> key then None else Some (Value cell))
      | None \<Rightarrow> (case slowMap m of None \<Rightarrow> None | Some sm \<Rightarrow> map_of sm key))"

definition Delete :: "('k \<Rightarrow> 64 word) \<Rightarrow> ('k, 'v) CoordMap \<Rightarrow> 'k \<Rightarrow> ('k, 'v) CoordMap" where
  "Delete hash m key =
     (case fastMap m of
        Some fm \<Rightarrow>
          (case map_of fm (hash key) of
             Some cell \<Rightarrow>
               if Key cell = key then m\<lparr>fastMap := Some (AList.delete (hash key) fm)\<rparr> else m
           | None \<Rightarrow> m)
      | None \<Rightarrow>
          (case slowMap m of
             None \<Rightarrow> m
           | Some sm \<Rightarrow> m\<lparr>slowMap := Some (AList.delete key sm)\<rparr>))"

definition fastToSlow :: "('k, 'v) CoordMap \<Rightarrow> ('k, 'v) CoordMap" where
  "fastToSlow m =
     m\<lparr>slowMap :=
          Some (fold (\<lambda>(h, cell) sm. AList.update (Key cell) (Value cell) sm)
                  (case fastMap m of None \<Rightarrow> [] | Some fm \<Rightarrow> fm) []),
       fastMap := None\<rparr>"

definition slowStore :: "('k, 'v) CoordMap \<Rightarrow> 'k \<Rightarrow> 'v \<Rightarrow> panic + ('k, 'v) CoordMap" where
  "slowStore m key val =
     (case slowMap m of
        None \<Rightarrow> Inl AssignToNilMap
      | Some sm \<Rightarrow> Inr (m\<lparr>slowMap := Some (AList.update key val sm)\<rparr>))"

definition Store ::
  "('k \<Rightarrow> 64 word) \<Rightarrow> ('k, 'v) CoordMap \<Rightarrow> 'k \<Rightarrow> 'v \<Rightarrow> panic + ('k, 'v) CoordMap" where
  "Store hash m key val =
     (case fastMap m of
        Some fm \<Rightarrow>
          (case map_of fm (hash key) of
             Some cell \<Rightarrow>
               if Key cell \<noteq> key then slowStore (fastToSlow m) key val
               else Inr (m\<lparr>fastMap :=
                           Some (AList.update (hash key) \<lparr>Key = key, Value = val\<rparr> fm)\<rparr>)
           | None \<Rightarrow>
               Inr (m\<lparr>fastMap :=
                         Some (AList.update (hash key) \<lparr>Key = key, Value = val\<rparr> fm)\<rparr>))
      | None \<Rightarrow> slowStore m key val)"

text \<open>
  A sequence of calls and what the caller observes of each: the pair returned by \<open>Load\<close>
  (\<open>None\<close> is \<^verbatim>\<open>(nil, false)\<close>), the number returned by \<open>Len\<close>, nothing for \<open>Store\<close> and
  \<open>Delete\<close>.
\<close>

datatype ('k, 'v) map_call = CallStore 'k 'v | CallLoad 'k | CallDelete 'k | CallLen

datatype 'v map_result = Stored | Loaded "'v option" | Deleted | Length nat

fun run_CoordMap ::
  "('k \<Rightarrow> 64 word) \<Rightarrow> ('k, 'v) CoordMap \<Rightarrow> ('k, 'v) map_call list \<Rightarrow> panic + 'v map_result list" where
  "run_CoordMap hash m [] = Inr []"
| "run_CoordMap hash m (CallStore k v # cs) =
     (case Store hash m k v of
        Inl e \<Rightarrow> Inl e
      | Inr m' \<Rightarrow>
          (case run_CoordMap hash m' cs of Inl e \<Rightarrow> Inl e | Inr rs \<Rightarrow> Inr (Stored # rs)))"
| "run_CoordMap hash m (CallLoad k # cs) =
     (case run_CoordMap hash m cs of
        Inl e \<Rightarrow> Inl e
      | Inr rs \<Rightarrow> Inr (Loaded (Load hash m k) # rs))"
| "run_CoordMap hash m (CallDelete k # cs) =
     (case run_CoordMap hash (Delete hash m k) cs of
        Inl e \<Rightarrow> Inl e
      | Inr rs \<Rightarrow> Inr (Deleted # rs))"
| "run_CoordMap hash m (CallLen # cs) =
     (case run_CoordMap hash m cs of
        Inl e \<Rightarrow> Inl e
      | Inr rs \<Rightarrow> Inr (Length (Len m) # rs))"

text \<open>
  The reference: the same calls on a plain key-to-value map, written after the spec's
  "standard key-to-value map".
\<close>

fun run_reference :: "('k \<times> 'v) list \<Rightarrow> ('k, 'v) map_call list \<Rightarrow> 'v map_result list" where
  "run_reference r [] = []"
| "run_reference r (CallStore k v # cs) = Stored # run_reference (AList.update k v r) cs"
| "run_reference r (CallLoad k # cs) = Loaded (map_of r k) # run_reference r cs"
| "run_reference r (CallDelete k # cs) = Deleted # run_reference (AList.delete k r) cs"
| "run_reference r (CallLen # cs) = Length (length r) # run_reference r cs"

text \<open>
  The states a \<open>CoordMap\<close> can be in: in the fast table every cell is filed under the hash
  of its own key and no hash occurs twice; once the fast table is nil the slow map exists.
\<close>

definition inv_CoordMap :: "('k \<Rightarrow> 64 word) \<Rightarrow> ('k, 'v) CoordMap \<Rightarrow> bool" where
  "inv_CoordMap hash m =
     (case fastMap m of
        Some fm \<Rightarrow> distinct (map fst fm) \<and> list_all (\<lambda>(h, cell). hash (Key cell) = h) fm
      | None \<Rightarrow> (case slowMap m of None \<Rightarrow> False | Some sm \<Rightarrow> distinct (map fst sm)))"

section \<open>Coordinates, triangles and meshes\<close>

text \<open>
  \<open>Coord3D\<close> is a struct of three \<^verbatim>\<open>float64\<close> fields. The fields are modelled as real
  numbers: the theorems below are about which values are compared, stored and looked up,
  and two coordinates are equal when their fields are.

  \<open>Triangle\<close> is the array type \<^verbatim>\<open>[3]Coord3D\<close>. A \<open>Mesh\<close> owns a set of triangle
  pointers; it is modelled as the list of the triangles it owns, one entry for each
  pointer, so two structurally equal triangles can both be in a mesh.
\<close>

record Coord3D =
  X :: real
  Y :: real
  Z :: real

definition XYZ :: "real \<Rightarrow> real \<Rightarrow> real \<Rightarrow> Coord3D" where
  "XYZ x y z = \<lparr>X = x, Y = y, Z = z\<rparr>"

datatype Triangle = Triangle Coord3D Coord3D Coord3D

fun tri_at :: "Triangle \<Rightarrow> nat \<Rightarrow> Coord3D" where
  "tri_at (Triangle a b c) i = (if i = 0 then a else if i = 1 then b else c)"

fun tri_coords :: "Triangle \<Rightarrow> Coord3D list" where
  "tri_coords (Triangle a b c) = [a, b, c]"

type_synonym Mesh = "Triangle list"

text \<open>
  Modelled from the spec: \<open>Mesh.Find\<close>, \<open>Mesh.MapCoords\<close> and the vertex index are not
  among the sources. \<open>Find\<close> returns the triangles of the mesh that are incident on all the
  given points ("triangles incident on a vertex, edge, or triangle"); \<open>MapCoords\<close> builds
  the mesh whose triangles are those of the mesh with the function applied to each corner
  ("emit a new mesh by remapping coordinates"); the keys of the vertex index are the
  corners of the triangles.
\<close>

definition Find :: "Mesh \<Rightarrow> Coord3D list \<Rightarrow> Triangle list" where
  "Find m ps = filter (\<lambda>t. list_all (\<lambda>p. p \<in> set (tri_coords t)) ps) m"

fun map_triangle :: "(Coord3D \<Rightarrow> Coord3D) \<Rightarrow> Triangle \<Rightarrow> Triangle" where
  "map_triangle f (Triangle a b c) = Triangle (f a) (f b) (f c)"

definition MapCoords :: "(Coord3D \<Rightarrow> Coord3D) \<Rightarrow> Mesh \<Rightarrow> Mesh" where
  "MapCoords f m = map (map_triangle f) m"

definition mesh_vertices :: "Mesh \<Rightarrow> Coord3D set" where
  "mesh_vertices m = (\<Union>t \<in> set m. set (tri_coords t))"

section \<open>Mesh.NeedsRepair\<close>

text \<open>
  \<^verbatim>\<open>
  for t := range m.triangles {
      for i := 0; i < 3; i++ {
          p1 := t[i]
          p2 := t[(i+1)%3]
          if len(m.Find(p1, p2)) != 2 { return true }
      }
  }
  return false
  \<close>
  The inner loop is \<open>NeedsRepair_triangle\<close>, counting \<open>i\<close> up to 3; the outer loop is
  \<open>NeedsRepair_from\<close>, over the triangles still to visit.
\<close>

function NeedsRepair_triangle :: "Mesh \<Rightarrow> Triangle \<Rightarrow> nat \<Rightarrow> bool" where
  "NeedsRepair_triangle m t i =
     (if i < 3 then
        (if length (Find m [tri_at t i, tri_at t ((i + 1) mod 3)]) \<noteq> 2 then True
         else NeedsRepair_triangle m t (i + 1))
      else False)"
  by pat_completeness auto
termination
  by (relation "measure (\<lambda>(m, t, i). 3 - i)") auto

fun NeedsRepair_from :: "Mesh \<Rightarrow> Triangle list \<Rightarrow> bool" where
  "NeedsRepair_from m [] = False"
| "NeedsRepair_from m (t # ts) =
     (if NeedsRepair_triangle m t 0 then True else NeedsRepair_from m ts)"

definition NeedsRepair :: "Mesh \<Rightarrow> bool" where
  "NeedsRepair m = NeedsRepair_from m m"

text \<open>
  The claim's words: the edges of a mesh are the three sides of each of its triangles, and
  the triangles incident to an edge are those that have both of its endpoints as corners.
\<close>

definition mesh_edges :: "Mesh \<Rightarrow> (Coord3D \<times> Coord3D) set" where
  "mesh_edges m =
     {(p1, p2). \<exists>a b c. Triangle a b c \<in> set m \<and> (p1, p2) \<in> {(a, b), (b, c), (c, a)}}"

definition incident_triangles :: "Mesh \<Rightarrow> Coord3D \<times> Coord3D \<Rightarrow> nat" where
  "incident_triangles m e =
     length (filter (\<lambda>t. fst e \<in> set (tri_coords t) \<and> snd e \<in> set (tri_coords t)) m)"

text \<open>
  Modelled from the spec: the methods of \<open>Coord3D\<close> and \<open>Triangle.Normal\<close> are not among
  the sources. They are "the usual arithmetic, dot, cross, normalize", and the normal of
  a triangle "is the unit cross of the two leading edges".
\<close>

definition Add :: "Coord3D \<Rightarrow> Coord3D \<Rightarrow> Coord3D" where
  "Add a b = \<lparr>X = X a + X b, Y = Y a + Y b, Z = Z a + Z b\<rparr>"

definition Sub :: "Coord3D \<Rightarrow> Coord3D \<Rightarrow> Coord3D" where
  "Sub a b = \<lparr>X = X a - X b, Y = Y a - Y b, Z = Z a - Z b\<rparr>"

definition Scale :: "Coord3D \<Rightarrow> real \<Rightarrow> Coord3D" where
  "Scale a s = \<lparr>X = X a * s, Y = Y a * s, Z = Z a * s\<rparr>"

definition Dot :: "Coord3D \<Rightarrow> Coord3D \<Rightarrow> real" where
  "Dot a b = X a * X b + Y a * Y b + Z a * Z b"

definition Cross :: "Coord3D \<Rightarrow> Coord3D \<Rightarrow> Coord3D" where
  "Cross a b =
     \<lparr>X = Y a * Z b - Z a * Y b, Y = Z a * X b - X a * Z b, Z = X a * Y b - Y a * X b\<rparr>"

definition Norm :: "Coord3D \<Rightarrow> real" where
  "Norm a = sqrt (Dot a a)"

definition Normalize :: "Coord3D \<Rightarrow> Coord3D" where
  "Normalize a = Scale a (1 / Norm a)"

fun Triangle_Normal :: "Triangle \<Rightarrow> Coord3D" where
  "Triangle_Normal (Triangle a b c) = Normalize (Cross (Sub b a) (Sub c a))"

section \<open>Dual Contouring: triangle emission\<close>

text \<open>
  \<open>addEdge\<close> is the closure of \<open>appendMesh\<close> that emits the two triangles of one edge. The
  layout's \<open>EdgeCubes\<close> gives the indices of the four cubes around the edge (negative when
  the cube is outside the grid) and \<open>Cube(c).VertexPosition\<close> the vertex of a cube; they are
  the parameters \<open>cubes\<close> and \<open>VertexPosition\<close>. The result is the updated edge and the
  triangles added to the sub-mesh.
  \<^verbatim>\<open>
  if e.Triangulated || !e.Active { return }
  e.Triangulated = true
  var vs [4]Coord3D
  for i, c := range layout.EdgeCubes(i) {
      if c < 0 { panic("solid is true outside of bounds") }
      vs[i] = layout.Cube(c).VertexPosition
  }
  t1a, t2a := &Triangle{vs[0], vs[1], vs[2]}, &Triangle{vs[1], vs[3], vs[2]}
  vs[0], vs[1], vs[3], vs[2] = vs[1], vs[3], vs[2], vs[0]
  t1b, t2b := &Triangle{vs[0], vs[1], vs[2]}, &Triangle{vs[1], vs[3], vs[2]}
  dotA := t1a.Normal().Dot(t2a.Normal())
  dotB := t1b.Normal().Dot(t2b.Normal())
  t1, t2 := t1a, t2a
  if dotA > dotB { t1, t2 = t1b, t2b }
  if t1.Normal().Dot(e.Normal) < 0 {
      t1[0], t1[1] = t1[1], t1[0]
      t2[0], t2[1] = t2[1], t2[0]
  }
  subMesh.Add(t1)
  subMesh.Add(t2)
  \<close>
\<close>

record dcEdge =
  Populated :: bool
  Active :: bool
  Triangulated :: bool
  Coord :: Coord3D
  Normal :: Coord3D

type_synonym quad = "Coord3D \<times> Coord3D \<times> Coord3D \<times> Coord3D"

fun triangulationA :: "quad \<Rightarrow> Triangle \<times> Triangle" where
  "triangulationA (v0, v1, v2, v3) = (Triangle v0 v1 v2, Triangle v1 v3 v2)"

text \<open>
  After the parallel assignment the array holds \<open>v1, v3, v0, v2\<close>, and the second pair of
  triangles is built from it with the same index pattern.
\<close>

fun permute_quad :: "quad \<Rightarrow> quad" where
  "permute_quad (v0, v1, v2, v3) = (v1, v3, v0, v2)"

definition triangulationB :: "quad \<Rightarrow> Triangle \<times> Triangle" where
  "triangulationB vs = triangulationA (permute_quad vs)"

fun normals_dot :: "Triangle \<times> Triangle \<Rightarrow> real" where
  "normals_dot (t1, t2) = Dot (Triangle_Normal t1) (Triangle_Normal t2)"

definition choose_triangulation :: "quad \<Rightarrow> Triangle \<times> Triangle" where
  "choose_triangulation vs =
     (let dotA = normals_dot (triangulationA vs);
          dotB = normals_dot (triangulationB vs)
      in if dotA > dotB then triangulationB vs else triangulationA vs)"

fun swap01 :: "Triangle \<Rightarrow> Triangle" where
  "swap01 (Triangle a b c) = Triangle b a c"

definition flip_to_normal :: "Coord3D \<Rightarrow> Triangle \<times> Triangle \<Rightarrow> Triangle \<times> Triangle" where
  "flip_to_normal n ts =
     (if Dot (Triangle_Normal (fst ts)) n < 0 then (swap01 (fst ts), swap01 (snd ts))
      else ts)"

fun addEdge ::
  "(int \<Rightarrow> Coord3D) \<Rightarrow> int \<times> int \<times> int \<times> int \<Rightarrow> dcEdge \<Rightarrow> panic + dcEdge \<times> Triangle list" where
  "addEdge VertexPosition (c0, c1, c2, c3) e =
     (if Triangulated e \<or> \<not> Active e then Inr (e, [])
      else if c0 < 0 \<or> c1 < 0 \<or> c2 < 0 \<or> c3 < 0 then Inl SolidOutsideBounds
      else
        (let vs = (VertexPosition c0, VertexPosition c1, VertexPosition c2, VertexPosition c3);
             (t1, t2) = flip_to_normal (Normal e) (choose_triangulation vs)
         in Inr (e\<lparr>Triangulated := True\<rparr>, [t1, t2])))"

section \<open>Floater97\<close>

text \<open>
  A loop whose body may panic is a fold that stops at the first panic.
\<close>

fun fold_panic :: "('a \<Rightarrow> 's \<Rightarrow> panic + 's) \<Rightarrow> 'a list \<Rightarrow> 's \<Rightarrow> panic + 's" where
  "fold_panic f [] s = Inr s"
| "fold_panic f (x # xs) s = (case f x s of Inl e \<Rightarrow> Inl e | Inr s' \<Rightarrow> fold_panic f xs s')"

text \<open>
  \<open>Value\<close> is \<open>Load\<close> without its second result: a missing key gives the zero value of
  the value type, here the argument \<open>zero\<close>. \<open>Range\<close> visits the cells of the fast table, or
  the entries of the slow map once the fast table is nil.
\<close>

definition ValueOr :: "'v \<Rightarrow> ('k \<Rightarrow> 64 word) \<Rightarrow> ('k, 'v) CoordMap \<Rightarrow> 'k \<Rightarrow> 'v" where
  "ValueOr zero hash m key = (case Load hash m key of None \<Rightarrow> zero | Some v \<Rightarrow> v)"

definition Range_entries :: "('k, 'v) CoordMap \<Rightarrow> ('k \<times> 'v) list" where
  "Range_entries m =
     (case fastMap m of
        Some fm \<Rightarrow> map (\<lambda>(h, cell). (Key cell, Value cell)) fm
      | None \<Rightarrow> (case slowMap m of None \<Rightarrow> [] | Some sm \<Rightarrow> sm))"

text \<open>
  The hash of an edge key combines the 32-bit hashes of its two ends:
  \<^verbatim>\<open>uint64(h1) | (uint64(h2) << 32)\<close>.
\<close>

definition hashForEdgeMap :: "(Coord3D \<Rightarrow> 32 word) \<Rightarrow> Coord3D \<times> Coord3D \<Rightarrow> 64 word" where
  "hashForEdgeMap fastHash c =
     (let h1 = fastHash (fst c); h2 = fastHash (snd c)
      in (ucast h1 :: 64 word) OR push_bit 32 (ucast h2 :: 64 word))"

text \<open>
  Modelled from the spec: \<open>Mesh.VertexSlice\<close> is not among the sources; it lists each
  vertex of the mesh once. A \<open>model2d.Coord\<close> and a \<open>numerical.Vec2\<close> are pairs of numbers.
  The sparse matrix of the \<open>numerical\<close> package is its size with the entries that were
  set, and the linear solver is the parameter \<open>solver\<close>: it receives the matrix (the code
  passes \<open>matrix.Apply\<close>), the right-hand side and the optional initial guess, and
  returns the slice that the code copies into the solution.
\<close>

definition VertexSlice :: "Mesh \<Rightarrow> Coord3D list" where
  "VertexSlice m = remdups (concat (map tri_coords m))"

type_synonym Coord2D = "real \<times> real"

type_synonym SparseMatrix = "nat \<times> ((nat \<times> nat) \<times> real) list"

definition NewSparseMatrix :: "nat \<Rightarrow> SparseMatrix" where
  "NewSparseMatrix n = (n, [])"

definition SparseMatrix_Set :: "SparseMatrix \<Rightarrow> nat \<Rightarrow> nat \<Rightarrow> real \<Rightarrow> SparseMatrix" where
  "SparseMatrix_Set mat i j x = (fst mat, AList.update (i, j) x (snd mat))"

type_synonym LinearSolver = "SparseMatrix \<Rightarrow> real list \<Rightarrow> real list option \<Rightarrow> real list"

fun component :: "nat \<Rightarrow> Coord2D \<Rightarrow> real" where
  "component i (x, y) = (if i = 0 then x else y)"

fun set_component :: "nat \<Rightarrow> real \<Rightarrow> Coord2D \<Rightarrow> Coord2D" where
  "set_component i v (x, y) = (if i = 0 then (v, y) else (x, v))"

fun Add2 :: "Coord2D \<Rightarrow> Coord2D \<Rightarrow> Coord2D" where
  "Add2 (x, y) (x', y') = (x + x', y + y')"

fun Scale2 :: "Coord2D \<Rightarrow> real \<Rightarrow> Coord2D" where
  "Scale2 (x, y) s = (x * s, y * s)"

text \<open>
  The first loop of \<open>floater97\<close> maps each vertex to its neighbours.
  \<^verbatim>\<open>
  m.Iterate(func(t *Triangle) {
      for i, c := range t {
          for j, c1 := range t {
              if i != j {
                  cur := neighbors.Value(c)
                  found := false
                  for _, c2 := range cur {
                      if c2 == c1 { found = true; continue }
                  }
                  if !found { neighbors.Store(c, append(cur, c1)) }
              }
          }
      }
  })
  \<close>
\<close>

definition add_neighbor ::
  "(Coord3D \<Rightarrow> 64 word) \<Rightarrow> Coord3D \<Rightarrow> Coord3D \<Rightarrow> (Coord3D, Coord3D list) CoordMap
     \<Rightarrow> panic + (Coord3D, Coord3D list) CoordMap" where
  "add_neighbor hash c c1 neighbors =
     (let cur = ValueOr [] hash neighbors c
      in if c1 \<in> set cur then Inr neighbors else Store hash neighbors c (cur @ [c1]))"

definition triangle_neighbors ::
  "(Coord3D \<Rightarrow> 64 word) \<Rightarrow> Triangle \<Rightarrow> (Coord3D, Coord3D list) CoordMap
     \<Rightarrow> panic + (Coord3D, Coord3D list) CoordMap" where
  "triangle_neighbors hash t neighbors =
     fold_panic
       (\<lambda>(i, j) nb. if i \<noteq> j then add_neighbor hash (tri_at t i) (tri_at t j) nb else Inr nb)
       (List.product [0, 1, 2] [0, 1, 2]) neighbors"

definition floater97_neighbors ::
  "(Coord3D \<Rightarrow> 64 word) \<Rightarrow> Mesh \<Rightarrow> panic + (Coord3D, Coord3D list) CoordMap" where
  "floater97_neighbors hash m = fold_panic (triangle_neighbors hash) m NewCoordMap"

text \<open>
  The second loop numbers the vertices that have no boundary coordinate.
  \<^verbatim>\<open>
  for _, v := range m.VertexSlice() {
      if _, ok := boundary.Load(v); !ok {
          nonBoundary = append(nonBoundary, v)
          nonBoundaryToIndex.Store(v, len(nonBoundary)-1)
      }
  }
  \<close>
\<close>

definition add_nonBoundary ::
  "(Coord3D \<Rightarrow> 64 word) \<Rightarrow> (Coord3D, Coord2D) CoordMap \<Rightarrow> Coord3D
     \<Rightarrow> Coord3D list \<times> (Coord3D, nat) CoordMap
     \<Rightarrow> panic + Coord3D list \<times> (Coord3D, nat) CoordMap" where
  "add_nonBoundary hash boundary v st =
     (case Load hash boundary v of
        Some b \<Rightarrow> Inr st
      | None \<Rightarrow>
          (case Store hash (snd st) v (length (fst st)) of
             Inl e \<Rightarrow> Inl e
           | Inr idx \<Rightarrow> Inr (fst st @ [v], idx)))"

definition floater97_nonBoundary ::
  "(Coord3D \<Rightarrow> 64 word) \<Rightarrow> Mesh \<Rightarrow> (Coord3D, Coord2D) CoordMap
     \<Rightarrow> panic + Coord3D list \<times> (Coord3D, nat) CoordMap" where
  "floater97_nonBoundary hash m boundary =
     fold_panic (add_nonBoundary hash boundary) (VertexSlice m) ([], NewCoordMap)"

text \<open>
  The third loop fills one row of the system \<open>matrix * x = bias\<close> for each non-boundary
  vertex.
  \<^verbatim>\<open>
  for i, center := range nonBoundary {
      matrix.Set(i, i, -1)
      totalWeight := 0.0
      for _, neighbor := range neighbors.Value(center) {
          weight, ok := edgeWeights.Load([2]Coord3D{center, neighbor})
          if !ok { panic("missing edge weight ...") }
          if weight < 0 { panic("weight ... should not be negative") }
          totalWeight += weight
          j, ok := nonBoundaryToIndex.Load(neighbor)
          if !ok {
              bias[i] = bias[i].Add(boundary.Value(neighbor).Scale(-weight).Array())
          } else {
              matrix.Set(i, j, weight)
          }
      }
      if math.Abs(totalWeight-1) > 1e-4 { panic("total weight per vertex ...") }
  }
  \<close>
\<close>

definition row_neighbor ::
  "(Coord3D \<Rightarrow> 64 word) \<Rightarrow> (Coord3D \<times> Coord3D \<Rightarrow> 64 word) \<Rightarrow> (Coord3D, Coord2D) CoordMap
     \<Rightarrow> (Coord3D \<times> Coord3D, real) CoordMap \<Rightarrow> (Coord3D, nat) CoordMap \<Rightarrow> nat \<Rightarrow> Coord3D
     \<Rightarrow> Coord3D \<Rightarrow> SparseMatrix \<times> Coord2D list \<times> real
     \<Rightarrow> panic + SparseMatrix \<times> Coord2D list \<times> real" where
  "row_neighbor hash hashE boundary edgeWeights nonBoundaryToIndex i center neighbor st =
     (case st of (matrix, bias, totalWeight) \<Rightarrow>
        (case Load hashE edgeWeights (center, neighbor) of
           None \<Rightarrow> Inl MissingEdgeWeight
         | Some weight \<Rightarrow>
             if weight < 0 then Inl NegativeWeight
             else
               (case Load hash nonBoundaryToIndex neighbor of
                  None \<Rightarrow>
                    Inr (matrix,
                         bias[i := Add2 (bias ! i)
                                     (Scale2 (ValueOr (0, 0) hash boundary neighbor) (- weight))],
                         totalWeight + weight)
                | Some j \<Rightarrow> Inr (SparseMatrix_Set matrix i j weight, bias, totalWeight + weight))))"

definition build_row ::
  "(Coord3D \<Rightarrow> 64 word) \<Rightarrow> (Coord3D \<times> Coord3D \<Rightarrow> 64 word) \<Rightarrow> (Coord3D, Coord2D) CoordMap
     \<Rightarrow> (Coord3D \<times> Coord3D, real) CoordMap \<Rightarrow> (Coord3D, Coord3D list) CoordMap
     \<Rightarrow> (Coord3D, nat) CoordMap \<Rightarrow> nat \<times> Coord3D \<Rightarrow> SparseMatrix \<times> Coord2D list
     \<Rightarrow> panic + SparseMatrix \<times> Coord2D list" where
  "build_row hash hashE boundary edgeWeights neighbors nonBoundaryToIndex ic st =
     (case fold_panic
             (row_neighbor hash hashE boundary edgeWeights nonBoundaryToIndex (fst ic) (snd ic))
             (ValueOr [] hash neighbors (snd ic))
             (SparseMatrix_Set (fst st) (fst ic) (fst ic) (- 1), snd st, 0) of
        Inl e \<Rightarrow> Inl e
      | Inr (matrix, bias, totalWeight) \<Rightarrow>
          if \<bar>totalWeight - 1\<bar> > 1 / 10000 then Inl TotalWeightNotOne
          else Inr (matrix, bias))"

text \<open>
  The system is solved once for each of the two coordinates.
  \<^verbatim>\<open>
  solution := make([]numerical.Vec2, len(bias))
  for i := 0; i < 2; i++ {
      bias1d := make([]float64, len(bias))
      for j, v := range bias { bias1d[j] = v[i] }
      var initGuess []float64
      if previousParam != nil {
          initGuess = make([]float64, len(bias))
          for j, p := range nonBoundary { initGuess[j] = previousParam.Value(p).Array()[i] }
      }
      for j, x := range solver.SolveLinearSystem(matrix.Apply, bias1d, initGuess) {
          solution[j][i] = x
      }
  }
  \<close>
  Writing \<open>solution[j]\<close> panics when the solver returns more numbers than there are rows.
\<close>

definition write_column :: "nat \<Rightarrow> real list \<Rightarrow> Coord2D list \<Rightarrow> panic + Coord2D list" where
  "write_column i xs solution =
     (if length xs > length solution then Inl IndexOutOfRange
      else Inr (map (\<lambda>(j, p). if j < length xs then set_component i (xs ! j) p else p)
                  (enumerate 0 solution)))"

definition solve_column ::
  "(Coord3D \<Rightarrow> 64 word) \<Rightarrow> LinearSolver \<Rightarrow> SparseMatrix \<Rightarrow> Coord2D list \<Rightarrow> Coord3D list
     \<Rightarrow> (Coord3D, Coord2D) CoordMap option \<Rightarrow> nat \<Rightarrow> Coord2D list \<Rightarrow> panic + Coord2D list" where
  "solve_column hash solver matrix bias nonBoundary previousParam i solution =
     (let bias1d = map (component i) bias;
          initGuess =
            (case previousParam of
               None \<Rightarrow> None
             | Some pp \<Rightarrow> Some (map (\<lambda>p. component i (ValueOr (0, 0) hash pp p)) nonBoundary))
      in write_column i (solver matrix bias1d initGuess) solution)"

text \<open>
  The result is a new map that receives the boundary first and the solution afterwards.
  \<^verbatim>\<open>
  result := NewCoordMap[model2d.Coord]()
  boundary.Range(func(k Coord3D, v model2d.Coord) bool {
      result.Store(k, v)
      return true
  })
  for i, point := range solution {
      result.Store(nonBoundary[i], model2d.NewCoordArray(point))
  }
  return result
  \<close>
\<close>

definition store_solution_point ::
  "(Coord3D \<Rightarrow> 64 word) \<Rightarrow> Coord3D list \<Rightarrow> nat \<times> Coord2D \<Rightarrow> (Coord3D, Coord2D) CoordMap
     \<Rightarrow> panic + (Coord3D, Coord2D) CoordMap" where
  "store_solution_point hash nonBoundary ip result =
     (if fst ip < length nonBoundary then Store hash result (nonBoundary ! fst ip) (snd ip)
      else Inl IndexOutOfRange)"

definition floater97_result ::
  "(Coord3D \<Rightarrow> 64 word) \<Rightarrow> (Coord3D, Coord2D) CoordMap \<Rightarrow> Coord3D list \<Rightarrow> Coord2D list
     \<Rightarrow> panic + (Coord3D, Coord2D) CoordMap" where
  "floater97_result hash boundary nonBoundary solution =
     (case fold_panic (\<lambda>kv result. Store hash result (fst kv) (snd kv))
             (Range_entries boundary) NewCoordMap of
        Inl e \<Rightarrow> Inl e
      | Inr result \<Rightarrow>
          fold_panic (store_solution_point hash nonBoundary) (enumerate 0 solution) result)"

definition floater97 ::
  "(Coord3D \<Rightarrow> 64 word) \<Rightarrow> (Coord3D \<times> Coord3D \<Rightarrow> 64 word) \<Rightarrow> LinearSolver \<Rightarrow> Mesh
     \<Rightarrow> (Coord3D, Coord2D) CoordMap \<Rightarrow> (Coord3D \<times> Coord3D, real) CoordMap
     \<Rightarrow> (Coord3D, Coord2D) CoordMap option \<Rightarrow> panic + (Coord3D, Coord2D) CoordMap" where
  "floater97 hash hashE solver m boundary edgeWeights previousParam =
     (case floater97_neighbors hash m of
        Inl e \<Rightarrow> Inl e
      | Inr neighbors \<Rightarrow>
     (case floater97_nonBoundary hash m boundary of
        Inl e \<Rightarrow> Inl e
      | Inr (nonBoundary, nonBoundaryToIndex) \<Rightarrow>
     (case fold_panic
             (build_row hash hashE boundary edgeWeights neighbors nonBoundaryToIndex)
             (enumerate 0 nonBoundary)
             (NewSparseMatrix (length nonBoundary), replicate (length nonBoundary) (0, 0)) of
        Inl e \<Rightarrow> Inl e
      | Inr (matrix, bias) \<Rightarrow>
     (case fold_panic (solve_column hash solver matrix bias nonBoundary previousParam)
             [0, 1] (replicate (length bias) (0, 0)) of
        Inl e \<Rightarrow> Inl e
      | Inr solution \<Rightarrow> floater97_result hash boundary nonBoundary solution))))"

definition Floater97 ::
  "(Coord3D \<Rightarrow> 64 word) \<Rightarrow> (Coord3D \<times> Coord3D \<Rightarrow> 64 word) \<Rightarrow> LinearSolver \<Rightarrow> Mesh
     \<Rightarrow> (Coord3D, Coord2D) CoordMap \<Rightarrow> (Coord3D \<times> Coord3D, real) CoordMap
     \<Rightarrow> panic + (Coord3D, Coord2D) CoordMap" where
  "Floater97 hash hashE solver m boundary edgeWeights =
     floater97 hash hashE solver m boundary edgeWeights None"

section \<open>ARAP\<close>

text \<open>
  \<open>Matrix3\<close> is the array type \<^verbatim>\<open>[9]float64\<close>. Its methods and constructor, and the
  sparse Cholesky factorization of the \<open>numerical\<close> package, are not among the sources:
  they are the fields of the parameter \<open>num\<close>, and every theorem holds for whatever they
  compute. A \<open>numerical.Vec3\<close> carries the three numbers of a \<open>Coord3D\<close>, so the solver is
  applied to coordinates.
\<close>

type_synonym Matrix3 = "real list"

record 'chol numerics =
  NewMatrix3Columns :: "Coord3D \<Rightarrow> Coord3D \<Rightarrow> Coord3D \<Rightarrow> Matrix3"
  SVD :: "Matrix3 \<Rightarrow> Matrix3 \<times> Matrix3 \<times> Matrix3"
  Mul :: "Matrix3 \<Rightarrow> Matrix3 \<Rightarrow> Matrix3"
  Transpose :: "Matrix3 \<Rightarrow> Matrix3"
  Det :: "Matrix3 \<Rightarrow> real"
  MulColumn :: "Matrix3 \<Rightarrow> Coord3D \<Rightarrow> Coord3D"
  NewSparseCholesky :: "SparseMatrix \<Rightarrow> 'chol"
  ApplyInverseVec3 :: "'chol \<Rightarrow> Coord3D list \<Rightarrow> Coord3D list"

text \<open>
  The Go maps \<open>coordToIdx\<close>, \<open>ARAPConstraints\<close> and the indexed constraints are association
  lists; indices into \<open>coords\<close> are natural numbers, and \<open>fullToSqueezed\<close> holds integers
  because it marks a constrained vertex with \<open>-1\<close>. In an instance built by
  \<open>NewARAPWeighted\<close> the rows of \<open>neighbors\<close>, \<open>weights\<close> and \<open>rotWeights\<close> are as many as the
  coordinates and every neighbour index is one of them, so the numeric loops below read
  inside their slices.
\<close>

record ARAP =
  coordToIdx :: "(Coord3D \<times> nat) list"
  coords :: "Coord3D list"
  neighbors :: "nat list list"
  weights :: "real list list"
  rotWeights :: "real list list"
  triangles :: "(nat \<times> nat \<times> nat) list"
  tolerance :: real
  maxIters :: int
  minIters :: int

text \<open>
  \<open>NewARAPWeighted\<close> fills the index with
  \<^verbatim>\<open>for i, c := range coords { a.coordToIdx[c] = i }\<close>.
\<close>

definition index_coords :: "Coord3D list \<Rightarrow> (Coord3D \<times> nat) list" where
  "index_coords cs = fold (\<lambda>(i, c) idx. AList.update c i idx) (enumerate 0 cs) []"

record 'chol arapOperator =
  arap :: ARAP
  constraints :: "(nat \<times> Coord3D) list"
  squeezedToFull :: "nat list"
  fullToSqueezed :: "int list"
  chol :: "'chol option"

definition zero3 :: Coord3D where
  "zero3 = \<lparr>X = 0, Y = 0, Z = 0\<rparr>"

text \<open>
  \<^verbatim>\<open>
  for in, out := range constraints {
      if idx, ok := a.coordToIdx[in]; !ok {
          panic("constraint was not in the original mesh")
      } else {
          res[idx] = out
      }
  }
  \<close>
\<close>

definition indexConstraints_step ::
  "ARAP \<Rightarrow> Coord3D \<times> Coord3D \<Rightarrow> (nat \<times> Coord3D) list \<Rightarrow> panic + (nat \<times> Coord3D) list" where
  "indexConstraints_step a =
     (\<lambda>(inp, out) res.
        case map_of (coordToIdx a) inp of
          None \<Rightarrow> Inl ConstraintNotInMesh
        | Some idx \<Rightarrow> Inr (AList.update idx out res))"

definition indexConstraints :: "ARAP \<Rightarrow> (Coord3D \<times> Coord3D) list \<Rightarrow> panic + (nat \<times> Coord3D) list" where
  "indexConstraints a cs = fold_panic (indexConstraints_step a) cs []"

text \<open>
  \<^verbatim>\<open>
  for i := 0; i < len(a.coords); i++ {
      if _, ok := constraints[i]; !ok {
          fullToSqueezed[i] = len(squeezedToFull)
          squeezedToFull = append(squeezedToFull, i)
      } else {
          fullToSqueezed[i] = -1
      }
  }
  \<close>
\<close>

definition newARAPOperator_step ::
  "(nat \<times> Coord3D) list \<Rightarrow> nat \<Rightarrow> nat list \<times> int list \<Rightarrow> nat list \<times> int list" where
  "newARAPOperator_step cs i st =
     (if map_of cs i = None then (fst st @ [i], snd st @ [int (length (fst st))])
      else (fst st, snd st @ [- 1]))"

definition newARAPOperator :: "ARAP \<Rightarrow> (nat \<times> Coord3D) list \<Rightarrow> 'chol arapOperator" where
  "newARAPOperator a cs =
     (let st = fold (newARAPOperator_step cs) [0 ..< length (coords a)] ([], [])
      in \<lparr>arap = a, constraints = cs, squeezedToFull = fst st, fullToSqueezed = snd st,
          chol = None\<rparr>)"

text \<open>
  \<open>Squeeze\<close> reads \<open>full[j]\<close> for every \<open>j\<close> of \<open>squeezedToFull\<close>, and \<open>Unsqueeze\<close> reads
  \<open>squeezed[s]\<close> for every entry \<open>s\<close> of \<open>fullToSqueezed\<close> other than \<open>-1\<close> and writes
  \<open>res[i]\<close> into a slice as long as \<open>coords\<close>; an index outside the slice panics. A
  constrained index takes \<open>a.constraints[i]\<close>.
  \<^verbatim>\<open>
  res := make([]Coord3D, len(a.arap.coords))
  for i, s := range a.fullToSqueezed {
      if s != -1 { res[i] = squeezed[s] } else { res[i] = a.constraints[i] }
  }
  \<close>
\<close>

definition Squeeze :: "'chol arapOperator \<Rightarrow> Coord3D list \<Rightarrow> panic + Coord3D list" where
  "Squeeze l full =
     (if list_all (\<lambda>j. j < length full) (squeezedToFull l)
      then Inr (map (\<lambda>j. full ! j) (squeezedToFull l))
      else Inl IndexOutOfRange)"

definition constraint_at :: "'chol arapOperator \<Rightarrow> nat \<Rightarrow> Coord3D" where
  "constraint_at l i = (case map_of (constraints l) i of None \<Rightarrow> zero3 | Some c \<Rightarrow> c)"

definition Unsqueeze :: "'chol arapOperator \<Rightarrow> Coord3D list \<Rightarrow> panic + Coord3D list" where
  "Unsqueeze l squeezed =
     (if length (fullToSqueezed l) \<le> length (coords (arap l))
         \<and> list_all (\<lambda>s. s = - 1 \<or> (0 \<le> s \<and> nat s < length squeezed)) (fullToSqueezed l)
      then Inr (map (\<lambda>(i, s). if s \<noteq> - 1 then squeezed ! nat s else constraint_at l i)
                  (enumerate 0 (fullToSqueezed l))
                @ replicate (length (coords (arap l)) - length (fullToSqueezed l)) zero3)
      else Inl IndexOutOfRange)"

definition SqueezeDelta :: "'chol arapOperator \<Rightarrow> Coord3D list" where
  "SqueezeDelta l =
     map (\<lambda>fullIdx.
            foldl (\<lambda>result (j, n).
                     let w = weights (arap l) ! fullIdx ! j
                     in if fullToSqueezed l ! n = - 1
                        then Add result (Scale (constraint_at l n) w) else result)
              zero3 (enumerate 0 (neighbors (arap l) ! fullIdx)))
       (squeezedToFull l)"

definition Apply :: "'chol arapOperator \<Rightarrow> Coord3D list \<Rightarrow> Coord3D list" where
  "Apply l v =
     map (\<lambda>(i, fullIdx).
            foldl (\<lambda>result (j, n).
                     let w = weights (arap l) ! fullIdx ! j;
                         result1 = Add result (Scale (v ! i) w)
                     in if fullToSqueezed l ! n \<noteq> - 1
                        then Sub result1 (Scale (v ! nat (fullToSqueezed l ! n)) w)
                        else result1)
              zero3 (enumerate 0 (neighbors (arap l) ! fullIdx)))
       (enumerate 0 (squeezedToFull l))"

definition Targets :: "'chol numerics \<Rightarrow> 'chol arapOperator \<Rightarrow> Matrix3 list \<Rightarrow> Coord3D list" where
  "Targets num l rotations =
     map (\<lambda>(i, p).
            foldl (\<lambda>result (j, n).
                     let rotation = map2 (+) (rotations ! i) (rotations ! n);
                         w = weights (arap l) ! i ! j / 2;
                         diff = Scale (Sub p (coords (arap l) ! n)) w
                     in Add result (MulColumn num rotation diff))
              zero3 (enumerate 0 (neighbors (arap l) ! i)))
       (enumerate 0 (coords (arap l)))"

definition squeezedMatrix :: "'chol arapOperator \<Rightarrow> SparseMatrix" where
  "squeezedMatrix l =
     fold (\<lambda>(i, fullIdx) mat.
             let (mat1, diagonal) =
                   fold (\<lambda>(j, n) (mat, diagonal).
                           let w = weights (arap l) ! fullIdx ! j
                           in (if fullToSqueezed l ! n \<noteq> - 1
                               then SparseMatrix_Set mat i (nat (fullToSqueezed l ! n)) (- w)
                               else mat,
                               diagonal + w))
                     (enumerate 0 (neighbors (arap l) ! fullIdx)) (mat, 0)
             in SparseMatrix_Set mat1 i i diagonal)
       (enumerate 0 (squeezedToFull l)) (NewSparseMatrix (length (squeezedToFull l)))"

text \<open>
  \<open>LinSolve\<close> returns the solution and the operator, whose factorization it may have
  cached.
  \<^verbatim>\<open>
  if len(a.squeezedToFull) == 0 {
      // All points are constrained.
      return a.Unsqueeze(a.Squeeze(b))
  }
  b = a.Squeeze(b)
  for i, c := range a.SqueezeDelta() { b[i] = b[i].Add(c) }
  if a.chol == nil { a.chol = numerical.NewSparseCholesky(a.squeezedMatrix()) }
  ...
  outs := a.chol.ApplyInverseVec3(ins)
  ...
  return a.Unsqueeze(outCoords)
  \<close>
\<close>

definition LinSolve ::
  "'chol numerics \<Rightarrow> 'chol arapOperator \<Rightarrow> Coord3D list
     \<Rightarrow> panic + Coord3D list \<times> 'chol arapOperator" where
  "LinSolve num l b =
     (case Squeeze l b of
        Inl e \<Rightarrow> Inl e
      | Inr b1 \<Rightarrow>
          if length (squeezedToFull l) = 0 then
            (case Unsqueeze l b1 of Inl e \<Rightarrow> Inl e | Inr res \<Rightarrow> Inr (res, l))
          else
            (let b2 = map2 Add b1 (SqueezeDelta l);
                 c = (case chol l of
                        None \<Rightarrow> NewSparseCholesky num (squeezedMatrix l)
                      | Some c \<Rightarrow> c);
                 outCoords = ApplyInverseVec3 num c b2
             in case Unsqueeze l outCoords of
                  Inl e \<Rightarrow> Inl e
                | Inr res \<Rightarrow> Inr (res, l\<lparr>chol := Some c\<rparr>)))"

definition laplace ::
  "'chol numerics \<Rightarrow> ARAP \<Rightarrow> 'chol arapOperator \<Rightarrow> panic + Coord3D list \<times> 'chol arapOperator" where
  "laplace num a l =
     (let fullL = (newARAPOperator a [] :: 'chol arapOperator);
          targets = Apply fullL (coords a)
      in LinSolve num l targets)"

text \<open>
  \<^verbatim>\<open>
  var u, s, v Matrix3
  covariance.SVD(&u, &s, &v)
  rot := *v.Mul(u.Transpose())
  if rot.Det() < 0 {
      idx := 2
      u[idx] *= -1
      u[idx+3] *= -1
      u[idx+6] *= -1
      rot = *v.Mul(u.Transpose())
  }
  \<close>
\<close>

definition rotations :: "'chol numerics \<Rightarrow> ARAP \<Rightarrow> Coord3D list \<Rightarrow> Matrix3 list" where
  "rotations num a currentOutput =
     map (\<lambda>(i, c).
            let covariance =
                  foldl (\<lambda>covariance (j, n).
                           let weight = rotWeights a ! i ! j;
                               origDiff = Sub (coords a ! n) c;
                               newDiff = Sub (currentOutput ! n) (currentOutput ! i);
                               piece = NewMatrix3Columns num
                                 (Scale origDiff (X newDiff)) (Scale origDiff (Y newDiff))
                                 (Scale origDiff (Z newDiff))
                           in map2 (\<lambda>cv x. cv + x * weight) covariance piece)
                    (replicate 9 0) (enumerate 0 (neighbors a ! i));
                (u, s, v) = SVD num covariance;
                rot = Mul num v (Transpose num u)
            in if Det num rot < 0
               then Mul num v
                      (Transpose num (u[2 := u ! 2 * (- 1), 5 := u ! 5 * (- 1), 8 := u ! 8 * (- 1)]))
               else rot)
       (enumerate 0 (coords a))"

definition energy :: "'chol numerics \<Rightarrow> ARAP \<Rightarrow> Coord3D list \<Rightarrow> Matrix3 list \<Rightarrow> real" where
  "energy num a currentOutput rots =
     foldl (\<lambda>e (i, nbrs).
              foldl (\<lambda>e (j, n).
                       let w = weights a ! i ! j;
                           rotated = MulColumn num (rots ! i) (Sub (coords a ! i) (coords a ! n));
                           diff = Sub (Sub (currentOutput ! i) (currentOutput ! n)) rotated
                       in e + w * Dot diff diff)
                e (enumerate 0 nbrs))
       0 (enumerate 0 (neighbors a))"

text \<open>
  \<^verbatim>\<open>
  for iter := 0; iter < a.maxIters; iter++ {
      targets := l.Targets(rotations)
      currentOutput = l.LinSolve(targets)
      rotations = a.rotations(currentOutput)
      energy := a.energy(currentOutput, rotations)
      if iter+1 >= a.minIters && 1-energy/lastEnergy < a.tolerance { break }
      lastEnergy = energy
  }
  return currentOutput
  \<close>
\<close>

function deformMap_loop ::
  "'chol numerics \<Rightarrow> ARAP \<Rightarrow> 'chol arapOperator \<Rightarrow> nat \<Rightarrow> Coord3D list \<Rightarrow> Matrix3 list \<Rightarrow> real
     \<Rightarrow> panic + Coord3D list" where
  "deformMap_loop num a l iter currentOutput rots lastEnergy =
     (if int iter < maxIters a then
        (case LinSolve num l (Targets num l rots) of
           Inl e \<Rightarrow> Inl e
         | Inr (currentOutput1, l1) \<Rightarrow>
             (let rots1 = rotations num a currentOutput1;
                  energy1 = energy num a currentOutput1 rots1
              in if int iter + 1 \<ge> minIters a \<and> 1 - energy1 / lastEnergy < tolerance a
                 then Inr currentOutput1
                 else deformMap_loop num a l1 (iter + 1) currentOutput1 rots1 energy1))
      else Inr currentOutput)"
  by pat_completeness auto
termination
  by (relation "measure (\<lambda>(num, a, l, iter, cur, rots, e). nat (maxIters a - int iter))") auto

declare deformMap_loop.simps [simp del]

text \<open>
  \<^verbatim>\<open>
  if initialGuess == nil { initialGuess = a.laplace(l) }
  // Enforce constraints on the init.
  currentOutput := l.Unsqueeze(l.Squeeze(initialGuess))
  rotations := a.rotations(currentOutput)
  lastEnergy := a.energy(currentOutput, rotations)
  \<close>
\<close>

definition deformMap ::
  "'chol numerics \<Rightarrow> ARAP \<Rightarrow> 'chol arapOperator \<Rightarrow> Coord3D list option \<Rightarrow> panic + Coord3D list" where
  "deformMap num a l initialGuess =
     (case (case initialGuess of
              None \<Rightarrow> laplace num a l
            | Some g \<Rightarrow> Inr (g, l)) of
        Inl e \<Rightarrow> Inl e
      | Inr (guess, l1) \<Rightarrow>
          (case Squeeze l1 guess of
             Inl e \<Rightarrow> Inl e
           | Inr sq \<Rightarrow>
               (case Unsqueeze l1 sq of
                  Inl e \<Rightarrow> Inl e
                | Inr currentOutput \<Rightarrow>
                    (let rots = rotations num a currentOutput;
                         lastEnergy = energy num a currentOutput rots
                     in deformMap_loop num a l1 0 currentOutput rots lastEnergy))))"

text \<open>
  \<^verbatim>\<open>
  if m == nil { return nil }
  res := append([]Coord3D{}, a.coords...)
  for k, v := range m {
      if idx, ok := a.coordToIdx[k]; ok { res[idx] = v }
      else { panic("coordinate used as key was not in the original mesh") }
  }
  \<close>
  Writing \<open>res[idx]\<close> panics when the index is outside the copy of \<open>coords\<close>.
\<close>

definition initialGuessSlice ::
  "ARAP \<Rightarrow> (Coord3D \<times> Coord3D) list option \<Rightarrow> panic + Coord3D list option" where
  "initialGuessSlice a m =
     (case m of
        None \<Rightarrow> Inr None
      | Some g \<Rightarrow>
          (case fold_panic
                  (\<lambda>(k, v) res.
                     case map_of (coordToIdx a) k of
                       Some idx \<Rightarrow> if idx < length res then Inr (res[idx := v])
                                   else Inl IndexOutOfRange
                     | None \<Rightarrow> Inl GuessKeyNotInMesh)
                  g (coords a) of
             Inl e \<Rightarrow> Inl e
           | Inr res \<Rightarrow> Inr (Some res)))"

text \<open>
  \<^verbatim>\<open>for i, c := range s { res[a.coords[i]] = c }\<close> and
  \<^verbatim>\<open>for _, t := range a.triangles { m.Add(&Triangle{s[t[0]], s[t[1]], s[t[2]]}) }\<close>;
  reading \<open>a.coords[i]\<close> or \<open>s[t[0]]\<close> outside the slice panics.
\<close>

definition coordsToMap :: "ARAP \<Rightarrow> Coord3D list \<Rightarrow> panic + (Coord3D \<times> Coord3D) list" where
  "coordsToMap a s =
     (if length s \<le> length (coords a)
      then Inr (fold (\<lambda>(i, c) res. AList.update (coords a ! i) c res) (enumerate 0 s) [])
      else Inl IndexOutOfRange)"

definition coordsToMesh :: "ARAP \<Rightarrow> Coord3D list \<Rightarrow> panic + Mesh" where
  "coordsToMesh a s =
     (if list_all (\<lambda>(t0, t1, t2). t0 < length s \<and> t1 < length s \<and> t2 < length s) (triangles a)
      then Inr (map (\<lambda>(t0, t1, t2). Triangle (s ! t0) (s ! t1) (s ! t2)) (triangles a))
      else Inl IndexOutOfRange)"

definition Deform :: "'chol numerics \<Rightarrow> ARAP \<Rightarrow> (Coord3D \<times> Coord3D) list \<Rightarrow> panic + Mesh" where
  "Deform num a cs =
     (case indexConstraints a cs of
        Inl e \<Rightarrow> Inl e
      | Inr ic \<Rightarrow>
          (case deformMap num a (newARAPOperator a ic) None of
             Inl e \<Rightarrow> Inl e
           | Inr outSlice \<Rightarrow> coordsToMesh a outSlice))"

definition DeformMap ::
  "'chol numerics \<Rightarrow> ARAP \<Rightarrow> (Coord3D \<times> Coord3D) list \<Rightarrow> (Coord3D \<times> Coord3D) list option
     \<Rightarrow> panic + (Coord3D \<times> Coord3D) list" where
  "DeformMap num a cs initialGuess =
     (case indexConstraints a cs of
        Inl e \<Rightarrow> Inl e
      | Inr ic \<Rightarrow>
          (case initialGuessSlice a initialGuess of
             Inl e \<Rightarrow> Inl e
           | Inr guess \<Rightarrow>
               (case deformMap num a (newARAPOperator a ic) guess of
                  Inl e \<Rightarrow> Inl e
                | Inr outSlice \<Rightarrow> coordsToMap a outSlice)))"

text \<open>
  Two operators have the same shape when they differ at most in the cached factorization;
  an output is enforced for an operator when it is as long as \<open>coords\<close> and holds the
  constraint at every index marked \<open>-1\<close>.
\<close>

definition same_shape :: "'chol arapOperator \<Rightarrow> 'chol arapOperator \<Rightarrow> bool" where
  "same_shape l l' \<longleftrightarrow>
     arap l' = arap l \<and> constraints l' = constraints l
     \<and> squeezedToFull l' = squeezedToFull l \<and> fullToSqueezed l' = fullToSqueezed l"

definition enforced :: "'chol arapOperator \<Rightarrow> Coord3D list \<Rightarrow> bool" where
  "enforced l out \<longleftrightarrow>
     length out = length (coords (arap l))
     \<and> (\<forall>i < length (fullToSqueezed l).
           fullToSqueezed l ! i = - 1 \<longrightarrow> out ! i = constraint_at l i)"

section \<open>Theorems\<close>

subsection \<open>The resolution check\<close>

lemma foundPower_from_iff:
  "foundPower_from i r \<longleftrightarrow> (\<exists>k. i \<le> k \<and> k < 32 \<and> r = push_bit k (1 :: 64 word))"
proof (induction i r rule: foundPower_from.induct)
  case (1 i r)
  show ?case
  proof (cases "i < 32")
    case False
    then show ?thesis by auto
  next
    case lt: True
    show ?thesis
    proof (cases "push_bit i (1 :: 64 word) = r")
      case True
      with lt show ?thesis by auto
    next
      case False
      with lt 1 have "foundPower_from i r \<longleftrightarrow>
          (\<exists>k. Suc i \<le> k \<and> k < 32 \<and> r = push_bit k (1 :: 64 word))"
        by simp
      also have "\<dots> \<longleftrightarrow> (\<exists>k. i \<le> k \<and> k < 32 \<and> r = push_bit k (1 :: 64 word))"
        using False by (metis Suc_leD Suc_leI le_neq_implies_less)
      finally show ?thesis .
    qed
  qed
qed

lemma sint_push_bit_one:
  assumes "k < 32"
  shows "sint (push_bit k (1 :: 64 word)) = 2 ^ k"
proof -
  have "push_bit k (1 :: 64 word) = word_of_int (2 ^ k)"
    by (simp add: push_bit_eq_mult)
  then have "sint (push_bit k (1 :: 64 word)) = signed_take_bit 63 ((2::int) ^ k)"
    by (simp only: sint_sbintrunc') simp
  moreover have "(2::int) ^ k < 2 ^ 63"
    using assms by (intro power_strict_increasing) auto
  moreover have "- ((2::int) ^ 63) \<le> 2 ^ k"
    by (rule order_trans [of _ 0]) auto
  ultimately show ?thesis
    by (simp add: signed_take_bit_int_eq_self)
qed

lemma foundPower_iff:
  "foundPower r \<longleftrightarrow> (\<exists>k<32. sint r = 2 ^ k)"
proof
  assume "foundPower r"
  then obtain k where "k < 32" "r = push_bit k (1 :: 64 word)"
    unfolding foundPower_def foundPower_from_iff by auto
  then show "\<exists>k<32. sint r = 2 ^ k"
    using sint_push_bit_one by auto
next
  assume "\<exists>k<32. sint r = 2 ^ k"
  then obtain k where k: "k < 32" "sint r = 2 ^ k" by auto
  then have "sint r = sint (push_bit k (1 :: 64 word))"
    by (simp only: sint_push_bit_one)
  then have "r = push_bit k (1 :: 64 word)"
    by (simp only: signed_word_eqI)
  with k show "foundPower r"
    unfolding foundPower_def foundPower_from_iff by auto
qed

text \<open>
  Claim C10. \<open>BuildAutomaticUVMap\<close> panics with "resolution must be power of 2", whatever
  the rest of the function would do with the mesh, exactly when its resolution argument
  (read as a signed integer) is not \<open>2 ^ k\<close> for some \<open>k < 32\<close>; zero, negative values and
  other non-powers are among the rejected values. For the 32 accepted powers of two the
  check passes and the result is that of the rest of the function.
\<close>

theorem BuildAutomaticUVMap_resolution_check:
  "BuildAutomaticUVMap body m r verbose =
     (if (\<exists>k<32. sint r = 2 ^ k) then body m r verbose else Inl ResolutionNotPowerOfTwo)"
  by (auto simp add: BuildAutomaticUVMap_def foundPower_iff)

theorem BuildAutomaticUVMap_resolution_check_witness:
  "BuildAutomaticUVMap (\<lambda>m r v. Inr (m :: nat)) 7 1024 False = Inr 7
   \<and> BuildAutomaticUVMap (\<lambda>m r v. Inr (m :: nat)) 7 0 False = Inl ResolutionNotPowerOfTwo
   \<and> BuildAutomaticUVMap (\<lambda>m r v. Inr (m :: nat)) 7 (- 1024) False
       = Inl ResolutionNotPowerOfTwo"
proof -
  have pos: "\<exists>k<32. sint (1024 :: 64 word) = 2 ^ k"
    by (rule exI [of _ 10]) simp
  have zero: "\<not> (\<exists>k<32. sint (0 :: 64 word) = 2 ^ k)"
    by simp
  have "sint (- 1024 :: 64 word) = - 1024"
    by simp
  then have neg: "\<not> (\<exists>k<32. sint (- 1024 :: 64 word) = 2 ^ k)"
    by (metis neg_numeral_le_zero not_le zero_less_numeral zero_less_power)
  show ?thesis
    using pos zero neg
      BuildAutomaticUVMap_resolution_check [of "\<lambda>m r v. Inr (m :: nat)" 7 1024 False]
      BuildAutomaticUVMap_resolution_check [of "\<lambda>m r v. Inr (m :: nat)" 7 0 False]
      BuildAutomaticUVMap_resolution_check [of "\<lambda>m r v. Inr (m :: nat)" 7 "- 1024" False]
    by (simp only: if_True if_False simp_thms)
qed

subsection \<open>The coordinate hash maps against a reference map\<close>

lemma map_of_fold_update:
  "map_of (fold (\<lambda>(h, cell) sm. AList.update (Key cell) (Value cell) sm) fm acc) =
     map_of acc ++ map_of (rev (map (\<lambda>(h, cell). (Key cell, Value cell)) fm))"
proof (induction fm arbitrary: acc)
  case Nil
  then show ?case by simp
next
  case (Cons x xs)
  obtain h c where x: "x = (h, c)" by (cases x)
  have "map_of (AList.update (Key c) (Value c) acc) ++
          map_of (rev (map (\<lambda>(h, cell). (Key cell, Value cell)) xs)) =
        map_of acc ++ ([Key c \<mapsto> Value c] ++
          map_of (rev (map (\<lambda>(h, cell). (Key cell, Value cell)) xs)))" (is "?l = ?r")
  proof (rule ext)
    fix k
    show "?l k = ?r k"
      by (simp add: update_conv' map_add_def split: option.splits)
  qed
  then show ?case
    by (simp add: x Cons.IH)
qed

lemma distinct_fold_update:
  "distinct (map fst acc) \<Longrightarrow>
   distinct (map fst (fold (\<lambda>(h, cell) sm. AList.update (Key cell) (Value cell) sm) fm acc))"
  by (induction fm arbitrary: acc) (auto simp: distinct_update)

lemma fast_keys_distinct:
  assumes "distinct (map fst fm)" "list_all (\<lambda>(h, cell). hash (Key cell) = h) fm"
  shows "distinct (map (\<lambda>(h, cell). Key cell) fm)"
  using assms
proof (induction fm)
  case Nil
  then show ?case by simp
next
  case (Cons x xs)
  obtain h c where x: "x = (h, c)" by (cases x)
  have "Key c \<noteq> Key c'" if "(h', c') \<in> set xs" for h' c'
  proof
    assume eq: "Key c = Key c'"
    from that Cons.prems(2) have "hash (Key c') = h'"
      by (auto simp: list_all_iff)
    moreover from Cons.prems(2) x have "hash (Key c) = h" by simp
    ultimately have "h' = h" using eq by simp
    with that Cons.prems(1) x show False by force
  qed
  with Cons x show ?case by auto
qed

lemma fast_lookup:
  assumes "distinct (map fst fm)" "list_all (\<lambda>(h, cell). hash (Key cell) = h) fm"
  shows "map_of (map (\<lambda>(h, cell). (Key cell, Value cell)) fm) k =
           (case map_of fm (hash k) of
              None \<Rightarrow> None
            | Some cell \<Rightarrow> if Key cell \<noteq> k then None else Some (Value cell))"
  using assms
proof (induction fm)
  case Nil
  then show ?case by simp
next
  case (Cons x xs)
  obtain h c where x: "x = (h, c)" by (cases x)
  from Cons.prems x have hc: "hash (Key c) = h" and h: "h \<notin> fst ` set xs"
    and rest: "distinct (map fst xs)" "list_all (\<lambda>(h, cell). hash (Key cell) = h) xs"
    by auto
  note IH = Cons.IH [OF rest]
  show ?case
  proof (cases "hash k = h")
    case True
    with h have "map_of xs (hash k) = None"
      by (simp add: map_of_eq_None_iff)
    with True IH show ?thesis
      by (simp add: x)
  next
    case False
    with hc have "Key c \<noteq> k" by auto
    with False IH show ?thesis
      by (simp add: x)
  qed
qed


lemma list_all_update:
  "list_all P al \<Longrightarrow> P (k, v) \<Longrightarrow> list_all P (AList.update k v al)"
  by (induction al) auto

lemma list_all_delete:
  "list_all P al \<Longrightarrow> list_all P (AList.delete k al)"
  by (induction al) auto

lemma map_of_rev_distinct:
  "distinct (map fst al) \<Longrightarrow> map_of (rev al) = map_of al"
  by (rule map_of_inject_set [THEN iffD2]) (simp_all add: distinct_rev rev_map [symmetric])

lemma Load_fast:
  "fastMap m = Some fm \<Longrightarrow>
   Load hash m k =
     (case map_of fm (hash k) of
        None \<Rightarrow> None
      | Some cell \<Rightarrow> if Key cell \<noteq> k then None else Some (Value cell))"
  by (simp add: Load_def)

lemma fastToSlow_correct:
  assumes "inv_CoordMap hash m" "fastMap m = Some fm"
  shows "\<exists>sm. slowMap (fastToSlow m) = Some sm \<and> fastMap (fastToSlow m) = None
           \<and> distinct (map fst sm) \<and> map_of sm = Load hash m"
proof -
  let ?g = "\<lambda>(h, cell). (Key cell, Value cell)"
  let ?sm = "fold (\<lambda>(h, cell) sm. AList.update (Key cell) (Value cell) sm) fm []"
  from assms have d: "distinct (map fst fm)"
    and a: "list_all (\<lambda>(h, cell). hash (Key cell) = h) fm"
    by (simp_all add: inv_CoordMap_def)
  have eq: "map fst (map ?g fm) = map (\<lambda>(h, cell). Key cell) fm"
    by (induction fm) auto
  have dk: "distinct (map fst (map ?g fm))"
    unfolding eq by (rule fast_keys_distinct [OF d a])
  have "map_of ?sm = map_of (rev (map ?g fm))"
    by (simp add: map_of_fold_update)
  also have "\<dots> = map_of (map ?g fm)"
    using dk by (rule map_of_rev_distinct)
  also have "\<dots> = Load hash m"
    by (rule ext) (simp add: fast_lookup [OF d a] Load_fast [OF assms(2)])
  finally have "map_of ?sm = Load hash m" .
  moreover have "distinct (map fst ?sm)"
    by (rule distinct_fold_update) simp
  ultimately show ?thesis
    using assms(2) by (simp add: fastToSlow_def)
qed

lemma Load_slow:
  "fastMap m = None \<Longrightarrow> slowMap m = Some sm \<Longrightarrow> Load hash m = map_of sm"
  by (rule ext) (simp add: Load_def)

lemma slowStore_correct:
  assumes "fastMap m = None" "slowMap m = Some sm" "distinct (map fst sm)"
  shows "\<exists>m'. slowStore m k v = Inr m' \<and> inv_CoordMap hash m'
           \<and> Load hash m' = (map_of sm)(k \<mapsto> v)"
  using assms
  by (auto simp: slowStore_def inv_CoordMap_def Load_def update_conv' distinct_update
      intro!: ext)

lemma Store_correct:
  assumes "inv_CoordMap hash m"
  shows "\<exists>m'. Store hash m k v = Inr m' \<and> inv_CoordMap hash m'
           \<and> Load hash m' = (Load hash m)(k \<mapsto> v)"
proof (cases "fastMap m")
  case None
  with assms obtain sm where sm: "slowMap m = Some sm" "distinct (map fst sm)"
    by (auto simp: inv_CoordMap_def split: option.splits)
  from slowStore_correct [OF None sm, of k v hash] Load_slow [OF None sm(1), of hash] None
  show ?thesis
    by (simp add: Store_def)
next
  case (Some fm)
  from assms Some have d: "distinct (map fst fm)"
    and a: "list_all (\<lambda>(h, cell). hash (Key cell) = h) fm"
    by (simp_all add: inv_CoordMap_def)
  let ?cell = "\<lparr>Key = k, Value = v\<rparr>"
  let ?m' = "m\<lparr>fastMap := Some (AList.update (hash k) ?cell fm)\<rparr>"
  have inv': "inv_CoordMap hash ?m'"
    using d a by (simp add: inv_CoordMap_def distinct_update list_all_update)
  have upd: "Load hash ?m' = (Load hash m)(k \<mapsto> v)"
    if "\<And>cell. map_of fm (hash k) = Some cell \<Longrightarrow> Key cell = k"
  proof (rule ext)
    fix k'
    show "Load hash ?m' k' = ((Load hash m)(k \<mapsto> v)) k'"
      using that Some
      by (cases "map_of fm (hash k)") (auto simp: Load_def update_conv')
  qed
  show ?thesis
  proof (cases "map_of fm (hash k)")
    case None
    with Some inv' upd show ?thesis
      by (simp add: Store_def)
  next
    case (Some cell)
    show ?thesis
    proof (cases "Key cell = k")
      case True
      with Some \<open>fastMap m = Some fm\<close> inv' upd show ?thesis
        by (simp add: Store_def)
    next
      case False
      from fastToSlow_correct [OF assms \<open>fastMap m = Some fm\<close>]
      obtain sm where sm: "slowMap (fastToSlow m) = Some sm" "fastMap (fastToSlow m) = None"
        "distinct (map fst sm)" "map_of sm = Load hash m"
        by blast
      from slowStore_correct [OF sm(2) sm(1) sm(3), of k v hash] sm(4) False Some
        \<open>fastMap m = Some fm\<close>
      show ?thesis
        by (simp add: Store_def)
    qed
  qed
qed

lemma Delete_correct:
  assumes "inv_CoordMap hash m"
  shows "inv_CoordMap hash (Delete hash m k)
           \<and> Load hash (Delete hash m k) = (Load hash m)(k := None)"
proof (cases "fastMap m")
  case None
  with assms obtain sm where sm: "slowMap m = Some sm" "distinct (map fst sm)"
    by (auto simp: inv_CoordMap_def split: option.splits)
  with None show ?thesis
    by (auto simp: Delete_def inv_CoordMap_def Load_def delete_conv' distinct_delete
        intro!: ext)
next
  case (Some fm)
  from assms Some have d: "distinct (map fst fm)"
    and a: "list_all (\<lambda>(h, cell). hash (Key cell) = h) fm"
    by (simp_all add: inv_CoordMap_def)
  show ?thesis
  proof (cases "map_of fm (hash k)")
    case None
    with Some assms show ?thesis
      by (auto simp: Delete_def Load_def intro!: ext)
  next
    case (Some cell)
    show ?thesis
    proof (cases "Key cell = k")
      case False
      with Some \<open>fastMap m = Some fm\<close> assms show ?thesis
        by (auto simp: Delete_def Load_def intro!: ext)
    next
      case True
      let ?m' = "m\<lparr>fastMap := Some (AList.delete (hash k) fm)\<rparr>"
      have del: "Delete hash m k = ?m'"
        using True Some \<open>fastMap m = Some fm\<close> by (simp add: Delete_def)
      have "inv_CoordMap hash ?m'"
        using d a by (simp add: inv_CoordMap_def distinct_delete list_all_delete)
      moreover have "Load hash ?m' = (Load hash m)(k := None)"
      proof (rule ext)
        fix k'
        show "Load hash ?m' k' = ((Load hash m)(k := None)) k'"
          using True Some \<open>fastMap m = Some fm\<close>
          by (auto simp: Load_def delete_conv')
      qed
      ultimately show ?thesis
        using del by simp
    qed
  qed
qed

lemma length_distinct_alist:
  assumes "distinct (map fst al)"
  shows "length al = card (dom (map_of al))"
proof -
  have "card (dom (map_of al)) = card (set (map fst al))"
    by (simp add: dom_map_of_conv_image_fst)
  also have "\<dots> = length (map fst al)"
    using assms by (rule distinct_card)
  finally show ?thesis by simp
qed

lemma Len_correct:
  assumes "inv_CoordMap hash m"
  shows "Len m = card (dom (Load hash m))"
proof (cases "fastMap m")
  case None
  with assms obtain sm where sm: "slowMap m = Some sm" "distinct (map fst sm)"
    by (auto simp: inv_CoordMap_def split: option.splits)
  with None length_distinct_alist [OF sm(2)] Load_slow [OF None sm(1), of hash]
  show ?thesis
    by (simp add: Len_def)
next
  case (Some fm)
  let ?g = "\<lambda>(h, cell). (Key cell, Value cell)"
  from assms Some have d: "distinct (map fst fm)"
    and a: "list_all (\<lambda>(h, cell). hash (Key cell) = h) fm"
    by (simp_all add: inv_CoordMap_def)
  have eq: "map fst (map ?g fm) = map (\<lambda>(h, cell). Key cell) fm"
    by (induction fm) auto
  have dk: "distinct (map fst (map ?g fm))"
    unfolding eq by (rule fast_keys_distinct [OF d a])
  have "Load hash m = map_of (map ?g fm)"
    by (rule ext) (simp add: fast_lookup [OF d a] Load_fast [OF Some])
  with length_distinct_alist [OF dk] Some show ?thesis
    by (simp add: Len_def)
qed

lemma run_CoordMap_simulates:
  assumes "inv_CoordMap hash m" "distinct (map fst r)" "Load hash m = map_of r"
  shows "run_CoordMap hash m cs = Inr (run_reference r cs)"
  using assms
proof (induction cs arbitrary: m r)
  case Nil
  then show ?case by simp
next
  case (Cons c cs)
  show ?case
  proof (cases c)
    case (CallStore k v)
    from Store_correct [OF Cons.prems(1), of k v]
    obtain m' where m': "Store hash m k v = Inr m'" "inv_CoordMap hash m'"
      "Load hash m' = (Load hash m)(k \<mapsto> v)"
      by blast
    have "run_CoordMap hash m' cs = Inr (run_reference (AList.update k v r) cs)"
      using m' Cons.prems by (intro Cons.IH) (simp_all add: distinct_update update_conv')
    with m'(1) CallStore show ?thesis by simp
  next
    case (CallLoad k)
    with Cons.IH [OF Cons.prems] Cons.prems(3) show ?thesis by simp
  next
    case (CallDelete k)
    have "run_CoordMap hash (Delete hash m k) cs = Inr (run_reference (AList.delete k r) cs)"
      using Delete_correct [OF Cons.prems(1), of k] Cons.prems
      by (intro Cons.IH) (simp_all add: distinct_delete delete_conv')
    with CallDelete show ?thesis by simp
  next
    case CallLen
    have "Len m = length r"
      using Len_correct [OF Cons.prems(1)] length_distinct_alist [OF Cons.prems(2)]
        Cons.prems(3)
      by simp
    with CallLen Cons.IH [OF Cons.prems] show ?thesis by simp
  qed
qed

lemma Store_collision_degrades:
  "Store (\<lambda>k. 0) \<lparr>slowMap = None, fastMap = Some [(0, \<lparr>Key = 1 :: nat, Value = ''a''\<rparr>)]\<rparr>
      2 ''b''
   = Inr \<lparr>slowMap = Some [(1, ''a''), (2, ''b'')], fastMap = None\<rparr>"
  by (simp add: Store_def fastToSlow_def slowStore_def)

text \<open>
  Claim C8. For every hash function and every sequence of \<open>Store\<close>, \<open>Load\<close>, \<open>Delete\<close> and
  \<open>Len\<close> calls on a new \<open>CoordMap\<close>, no call panics and the results observed are those of
  the same calls on a reference key-to-value map. The hash function is arbitrary, so this
  covers distinct keys with equal fast hashes, where the container switches to the slow
  map; the key and value types are arbitrary, which covers the other maps of the family.
\<close>

theorem CoordMap_agrees_with_reference:
  "run_CoordMap hash NewCoordMap cs = Inr (run_reference [] cs)"
  by (rule run_CoordMap_simulates)
    (auto simp: inv_CoordMap_def NewCoordMap_def Load_def)

theorem CoordMap_agrees_with_reference_witness:
  "run_CoordMap (\<lambda>k. 0) NewCoordMap
     [CallStore (1 :: nat) ''a'', CallStore 2 ''b'', CallLen, CallLoad 1, CallLoad 2,
      CallDelete 1, CallLoad 1, CallLen, CallLoad 3]
   = Inr [Stored, Stored, Length 2, Loaded (Some ''a''), Loaded (Some ''b''),
          Deleted, Loaded None, Length 1, Loaded None]"
  using CoordMap_agrees_with_reference [of "\<lambda>k. 0"
     "[CallStore (1 :: nat) ''a'', CallStore 2 ''b'', CallLen, CallLoad 1, CallLoad 2,
       CallDelete 1, CallLoad 1, CallLen, CallLoad 3]"]
  by simp

subsection \<open>NeedsRepair\<close>

lemma Find_edge: "length (Find m [p1, p2]) = incident_triangles m (p1, p2)"
  by (simp add: Find_def incident_triangles_def)

lemma NeedsRepair_triangle_iff:
  "NeedsRepair_triangle m (Triangle a b c) 0 \<longleftrightarrow>
     incident_triangles m (a, b) \<noteq> 2 \<or> incident_triangles m (b, c) \<noteq> 2
     \<or> incident_triangles m (c, a) \<noteq> 2"
  by (simp add: Find_edge)

lemma NeedsRepair_from_iff:
  "NeedsRepair_from m ts \<longleftrightarrow> (\<exists>e \<in> mesh_edges ts. incident_triangles m e \<noteq> 2)"
proof (induction ts)
  case Nil
  then show ?case by (simp add: mesh_edges_def)
next
  case (Cons t ts)
  obtain a b c where t: "t = Triangle a b c" by (cases t)
  have "mesh_edges (t # ts) = {(a, b), (b, c), (c, a)} \<union> mesh_edges ts"
    unfolding mesh_edges_def t by auto
  then show ?case
    using Cons.IH NeedsRepair_triangle_iff [of m a b c]
    by (simp only: NeedsRepair_from.simps t) auto
qed

text \<open>
  Claim C6. For every mesh, \<open>NeedsRepair\<close> returns true if and only if some edge of the
  mesh is incident to a number of triangles other than exactly 2.
\<close>

theorem NeedsRepair_iff_edge_count:
  "NeedsRepair m \<longleftrightarrow> (\<exists>e \<in> mesh_edges m. incident_triangles m e \<noteq> 2)"
  by (simp add: NeedsRepair_def NeedsRepair_from_iff)

theorem NeedsRepair_iff_edge_count_witness:
  "(\<exists>e \<in> mesh_edges [Triangle (XYZ 0 0 0) (XYZ 1 0 0) (XYZ 0 1 0)].
      incident_triangles [Triangle (XYZ 0 0 0) (XYZ 1 0 0) (XYZ 0 1 0)] e \<noteq> 2)
   \<and> NeedsRepair [Triangle (XYZ 0 0 0) (XYZ 1 0 0) (XYZ 0 1 0)]"
proof -
  let ?m = "[Triangle (XYZ 0 0 0) (XYZ 1 0 0) (XYZ 0 1 0)]"
  have "(XYZ 0 0 0, XYZ 1 0 0) \<in> mesh_edges ?m"
    by (simp add: mesh_edges_def)
  moreover have "incident_triangles ?m (XYZ 0 0 0, XYZ 1 0 0) \<noteq> 2"
    by (simp add: incident_triangles_def)
  ultimately have "\<exists>e \<in> mesh_edges ?m. incident_triangles ?m e \<noteq> 2"
    by blast
  then show ?thesis
    using NeedsRepair_iff_edge_count [of ?m] by simp
qed

lemma NeedsRepair_tetrahedron:
  "\<not> NeedsRepair
     [Triangle (XYZ 0 0 0) (XYZ 0 1 0) (XYZ 1 0 0), Triangle (XYZ 0 0 0) (XYZ 1 0 0) (XYZ 0 0 1),
      Triangle (XYZ 0 0 0) (XYZ 0 0 1) (XYZ 0 1 0), Triangle (XYZ 1 0 0) (XYZ 0 1 0) (XYZ 0 0 1)]"
  by (simp add: NeedsRepair_def Find_def XYZ_def)

subsection \<open>Dual Contouring: the diagonal of an emitted quad\<close>

lemma Cross_swap: "Cross (Sub a b) (Sub c b) = Scale (Cross (Sub b a) (Sub c a)) (- 1)"
  by (simp add: Cross_def Sub_def Scale_def algebra_simps)

lemma Norm_neg: "Norm (Scale v (- 1)) = Norm v"
  by (simp add: Norm_def Dot_def Scale_def)

lemma Normalize_neg: "Normalize (Scale v (- 1)) = Scale (Normalize v) (- 1)"
  by (simp add: Normalize_def Norm_neg) (simp add: Scale_def)

lemma Triangle_Normal_swap01: "Triangle_Normal (swap01 t) = Scale (Triangle_Normal t) (- 1)"
proof (cases t)
  case (Triangle a b c)
  have "Triangle_Normal (swap01 t) = Normalize (Cross (Sub a b) (Sub c b))"
    by (simp add: Triangle)
  also have "\<dots> = Normalize (Scale (Cross (Sub b a) (Sub c a)) (- 1))"
    by (rule arg_cong [OF Cross_swap])
  also have "\<dots> = Scale (Triangle_Normal t) (- 1)"
    by (simp add: Normalize_neg Triangle)
  finally show ?thesis .
qed

lemma Dot_neg_neg: "Dot (Scale a (- 1)) (Scale b (- 1)) = Dot a b"
  by (simp add: Dot_def Scale_def)

lemma normals_dot_flip: "normals_dot (flip_to_normal n ts) = normals_dot ts"
  by (cases ts) (simp add: flip_to_normal_def Triangle_Normal_swap01 Dot_neg_neg)

lemma normals_dot_choose:
  "normals_dot (choose_triangulation vs) =
     min (normals_dot (triangulationA vs)) (normals_dot (triangulationB vs))"
  by (simp add: choose_triangulation_def Let_def min_def)

lemma sqrt_squares: "sqrt 16 = 4" "sqrt 36 = 6" "sqrt 81 = 9" "sqrt 121 = 11"
  by (rule real_sqrt_unique; simp)+

text \<open>
  Claim C2, as amended. For every active edge that is not yet triangulated and whose four
  adjacent cubes exist, \<open>addEdge\<close> marks the edge triangulated and emits two triangles over
  the four cube vertices, flipped to agree with the edge normal. They are the second
  triangulation when the dot product of the two triangle normals of the first one is
  greater than that of the second, and the first triangulation otherwise: the dot product
  of the normals of the emitted pair is the smaller of the two choices (the sharper
  angle), and a tie keeps the first triangulation.
\<close>

theorem addEdge_sharper_diagonal:
  assumes "Active e" "\<not> Triangulated e" "0 \<le> c0" "0 \<le> c1" "0 \<le> c2" "0 \<le> c3"
    and "vs = (pos c0, pos c1, pos c2, pos c3)"
  shows "\<exists>t1 t2. addEdge pos (c0, c1, c2, c3) e = Inr (e\<lparr>Triangulated := True\<rparr>, [t1, t2])
           \<and> (t1, t2) = flip_to_normal (Normal e)
                 (if normals_dot (triangulationA vs) > normals_dot (triangulationB vs)
                  then triangulationB vs else triangulationA vs)
           \<and> normals_dot (t1, t2) =
                 min (normals_dot (triangulationA vs)) (normals_dot (triangulationB vs))"
proof -
  obtain t1 t2 where t: "flip_to_normal (Normal e) (choose_triangulation vs) = (t1, t2)"
    by (cases "flip_to_normal (Normal e) (choose_triangulation vs)")
  have "normals_dot (t1, t2) =
      min (normals_dot (triangulationA vs)) (normals_dot (triangulationB vs))"
    using normals_dot_flip [of "Normal e" "choose_triangulation vs"] normals_dot_choose [of vs] t
    by simp
  moreover have "addEdge pos (c0, c1, c2, c3) e = Inr (e\<lparr>Triangulated := True\<rparr>, [t1, t2])"
    using assms t by simp
  moreover have "(t1, t2) = flip_to_normal (Normal e)
                 (if normals_dot (triangulationA vs) > normals_dot (triangulationB vs)
                  then triangulationB vs else triangulationA vs)"
    using t by (simp add: choose_triangulation_def Let_def)
  ultimately show ?thesis by blast
qed


theorem addEdge_sharper_diagonal_witness:
  "Active \<lparr>Populated = True, Active = True, Triangulated = False,
           Coord = XYZ 0 0 0, Normal = XYZ 0 0 1\<rparr>
   \<and> (\<exists>t1 t2.
        addEdge (\<lambda>c. if c = 0 then XYZ 0 0 0 else if c = 1 then XYZ 2 0 0
                      else if c = 2 then XYZ (- 1) 3 0 else XYZ 3 0 (- 2))
          (0, 1, 2, 3)
          \<lparr>Populated = True, Active = True, Triangulated = False,
           Coord = XYZ 0 0 0, Normal = XYZ 0 0 1\<rparr>
        = Inr (\<lparr>Populated = True, Active = True, Triangulated = True,
                Coord = XYZ 0 0 0, Normal = XYZ 0 0 1\<rparr>, [t1, t2])
        \<and> normals_dot (t1, t2) =
              min (normals_dot (triangulationA (XYZ 0 0 0, XYZ 2 0 0, XYZ (- 1) 3 0, XYZ 3 0 (- 2))))
                  (normals_dot (triangulationB (XYZ 0 0 0, XYZ 2 0 0, XYZ (- 1) 3 0, XYZ 3 0 (- 2)))))"
proof -
  let ?e = "\<lparr>Populated = True, Active = True, Triangulated = False,
            Coord = XYZ 0 0 0, Normal = XYZ 0 0 1\<rparr>"
  let ?pos = "\<lambda>c :: int. if c = 0 then XYZ 0 0 0 else if c = 1 then XYZ 2 0 0
                 else if c = 2 then XYZ (- 1) 3 0 else XYZ 3 0 (- 2)"
  have a: "Active ?e" and t: "\<not> Triangulated ?e"
    by simp_all
  have vs: "(XYZ 0 0 0, XYZ 2 0 0, XYZ (- 1) 3 0, XYZ 3 0 (- 2)) = (?pos 0, ?pos 1, ?pos 2, ?pos 3)"
    by simp
  have e': "?e\<lparr>Triangulated := True\<rparr> = \<lparr>Populated = True, Active = True, Triangulated = True,
            Coord = XYZ 0 0 0, Normal = XYZ 0 0 1\<rparr>"
    by simp
  have le: "(0::int) \<le> 0" "(0::int) \<le> 1" "(0::int) \<le> 2" "(0::int) \<le> 3"
    by simp_all
  note r = addEdge_sharper_diagonal
    [of ?e 0 1 2 3 "(XYZ 0 0 0, XYZ 2 0 0, XYZ (- 1) 3 0, XYZ 3 0 (- 2))" ?pos,
     OF a t le vs]
  then have "\<exists>t1 t2. addEdge ?pos (0, 1, 2, 3) ?e = Inr (?e\<lparr>Triangulated := True\<rparr>, [t1, t2])
        \<and> normals_dot (t1, t2) =
              min (normals_dot (triangulationA (XYZ 0 0 0, XYZ 2 0 0, XYZ (- 1) 3 0, XYZ 3 0 (- 2))))
                  (normals_dot (triangulationB (XYZ 0 0 0, XYZ 2 0 0, XYZ (- 1) 3 0, XYZ 3 0 (- 2))))"
    by blast
  with a show ?thesis
    unfolding e' by blast
qed

text \<open>
  Claim C2 as stated fails: on this quad the first triangulation has the larger dot
  product, \<open>1 / 3\<close>, and the triangles emitted are those of the second, whose dot product
  is \<open>2 / 11\<close>.
\<close>

theorem addEdge_larger_dot_counterexample:
  "addEdge (\<lambda>c. if c = 0 then XYZ 0 0 0 else if c = 1 then XYZ 2 0 0
                 else if c = 2 then XYZ (- 1) 3 0 else XYZ 3 0 (- 2))
      (0, 1, 2, 3)
      \<lparr>Populated = True, Active = True, Triangulated = False,
       Coord = XYZ 0 0 0, Normal = XYZ 0 0 1\<rparr>
    = Inr (\<lparr>Populated = True, Active = True, Triangulated = True,
            Coord = XYZ 0 0 0, Normal = XYZ 0 0 1\<rparr>,
           [Triangle (XYZ 2 0 0) (XYZ 3 0 (- 2)) (XYZ 0 0 0),
            Triangle (XYZ 3 0 (- 2)) (XYZ (- 1) 3 0) (XYZ 0 0 0)])
   \<and> normals_dot (Triangle (XYZ 2 0 0) (XYZ 3 0 (- 2)) (XYZ 0 0 0),
                   Triangle (XYZ 3 0 (- 2)) (XYZ (- 1) 3 0) (XYZ 0 0 0)) = 2 / 11
   \<and> normals_dot (triangulationA (XYZ 0 0 0, XYZ 2 0 0, XYZ (- 1) 3 0, XYZ 3 0 (- 2))) = 1 / 3"
  by (simp add: choose_triangulation_def triangulationB_def flip_to_normal_def XYZ_def
      Normalize_def Norm_def Dot_def Cross_def Sub_def Scale_def sqrt_squares)

subsection \<open>Floater97 keeps the boundary\<close>

lemma Load_Range_entries:
  assumes "inv_CoordMap hash m"
  shows "Load hash m = map_of (Range_entries m)"
proof (cases "fastMap m")
  case None
  with assms obtain sm where sm: "slowMap m = Some sm"
    by (auto simp: inv_CoordMap_def split: option.splits)
  with None Load_slow [OF None sm, of hash] show ?thesis
    by (simp add: Range_entries_def)
next
  case (Some fm)
  from assms Some have d: "distinct (map fst fm)"
    and a: "list_all (\<lambda>(h, cell). hash (Key cell) = h) fm"
    by (simp_all add: inv_CoordMap_def)
  show ?thesis
    by (rule ext) (simp add: fast_lookup [OF d a] Load_fast [OF Some] Range_entries_def Some)
qed

lemma distinct_Range_entries:
  assumes "inv_CoordMap hash m"
  shows "distinct (map fst (Range_entries m))"
proof (cases "fastMap m")
  case None
  with assms show ?thesis
    by (auto simp: inv_CoordMap_def Range_entries_def split: option.splits)
next
  case (Some fm)
  from assms Some have d: "distinct (map fst fm)"
    and a: "list_all (\<lambda>(h, cell). hash (Key cell) = h) fm"
    by (simp_all add: inv_CoordMap_def)
  have eq: "map fst (map (\<lambda>(h, cell). (Key cell, Value cell)) fm) = map (\<lambda>(h, cell). Key cell) fm"
    by (induction fm) auto
  show ?thesis
    unfolding Range_entries_def Some option.case eq by (rule fast_keys_distinct [OF d a])
qed

lemma fold_Store_entries:
  assumes "inv_CoordMap hash r"
  shows "\<exists>r'. fold_panic (\<lambda>kv result. Store hash result (fst kv) (snd kv)) es r = Inr r'
           \<and> inv_CoordMap hash r' \<and> Load hash r' = Load hash r ++ map_of (rev es)"
  using assms
proof (induction es arbitrary: r)
  case Nil
  then show ?case by simp
next
  case (Cons kv es)
  from Store_correct [OF Cons.prems, of "fst kv" "snd kv"]
  obtain r1 where r1: "Store hash r (fst kv) (snd kv) = Inr r1" "inv_CoordMap hash r1"
    "Load hash r1 = (Load hash r)(fst kv \<mapsto> snd kv)"
    by blast
  from Cons.IH [OF r1(2)]
  obtain r' where r': "fold_panic (\<lambda>kv result. Store hash result (fst kv) (snd kv)) es r1 = Inr r'"
    "inv_CoordMap hash r'" "Load hash r' = Load hash r1 ++ map_of (rev es)"
    by blast
  have "Load hash r' = Load hash r ++ map_of (rev (kv # es))"
    unfolding r'(3) r1(3)
    by (rule ext) (simp add: map_add_def split: option.splits)
  with r1(1) r'(1,2) show ?case by simp
qed

lemma NewCoordMap_inv: "inv_CoordMap hash NewCoordMap"
  by (simp add: inv_CoordMap_def NewCoordMap_def)

lemma Load_NewCoordMap: "Load hash NewCoordMap = Map.empty"
  by (rule ext) (simp add: Load_def NewCoordMap_def)

lemma copy_boundary:
  assumes "inv_CoordMap hash boundary"
  shows "\<exists>r. fold_panic (\<lambda>kv result. Store hash result (fst kv) (snd kv))
                (Range_entries boundary) NewCoordMap = Inr r
           \<and> inv_CoordMap hash r \<and> Load hash r = Load hash boundary"
proof -
  from fold_Store_entries [OF NewCoordMap_inv, of hash "Range_entries boundary"]
  obtain r where r: "fold_panic (\<lambda>kv result. Store hash result (fst kv) (snd kv))
                (Range_entries boundary) NewCoordMap = Inr r" "inv_CoordMap hash r"
    "Load hash r = Load hash NewCoordMap ++ map_of (rev (Range_entries boundary))"
    by blast
  have "Load hash r = map_of (Range_entries boundary)"
    using r(3) map_of_rev_distinct [OF distinct_Range_entries [OF assms]]
    by (simp add: Load_NewCoordMap)
  with r(1,2) Load_Range_entries [OF assms] show ?thesis
    by simp
qed

lemma fold_solution_other_keys:
  assumes "inv_CoordMap hash r"
    and "fold_panic (store_solution_point hash nonBoundary) ips r = Inr r'"
    and "k \<notin> set nonBoundary"
  shows "Load hash r' k = Load hash r k"
  using assms
proof (induction ips arbitrary: r)
  case Nil
  then show ?case by simp
next
  case (Cons ip ips)
  from Cons.prems(2) obtain r1 where r1: "store_solution_point hash nonBoundary ip r = Inr r1"
    "fold_panic (store_solution_point hash nonBoundary) ips r1 = Inr r'"
    by (auto split: sum.splits)
  from r1(1) have lt: "fst ip < length nonBoundary"
    and st: "Store hash r (nonBoundary ! fst ip) (snd ip) = Inr r1"
    by (auto simp: store_solution_point_def split: if_splits)
  from Store_correct [OF Cons.prems(1), of "nonBoundary ! fst ip" "snd ip"] st
  have inv1: "inv_CoordMap hash r1"
    and l1: "Load hash r1 = (Load hash r)(nonBoundary ! fst ip \<mapsto> snd ip)"
    by auto
  from lt Cons.prems(3) have "nonBoundary ! fst ip \<noteq> k"
    by (metis nth_mem)
  with l1 have "Load hash r1 k = Load hash r k" by simp
  with Cons.IH [OF inv1 r1(2) Cons.prems(3)] show ?case by simp
qed

lemma nonBoundary_not_in_boundary:
  assumes "fold_panic (add_nonBoundary hash boundary) vs st = Inr st'"
    and "\<forall>v \<in> set (fst st). Load hash boundary v = None"
  shows "\<forall>v \<in> set (fst st'). Load hash boundary v = None"
  using assms
proof (induction vs arbitrary: st)
  case Nil
  then show ?case by simp
next
  case (Cons v vs)
  from Cons.prems(1) obtain st1 where st1: "add_nonBoundary hash boundary v st = Inr st1"
    "fold_panic (add_nonBoundary hash boundary) vs st1 = Inr st'"
    by (auto split: sum.splits)
  from st1(1) Cons.prems(2) have "\<forall>v \<in> set (fst st1). Load hash boundary v = None"
    by (auto simp: add_nonBoundary_def split: option.splits sum.splits)
  with Cons.IH [OF st1(2)] show ?case by simp
qed

lemma floater97_fan_run:
  "floater97
     (\<lambda>c. if c = XYZ 1 0 0 then 2 else if c = XYZ 0 1 0 then 3 else 1)
     (\<lambda>e. if snd e = XYZ 1 0 0 then 2 else if snd e = XYZ 0 1 0 then 3 else 1)
     (\<lambda>mat b guess. map uminus b)
     [Triangle (XYZ (1 / 4) (1 / 4) 1) (XYZ 0 0 0) (XYZ 1 0 0),
      Triangle (XYZ (1 / 4) (1 / 4) 1) (XYZ 1 0 0) (XYZ 0 1 0),
      Triangle (XYZ (1 / 4) (1 / 4) 1) (XYZ 0 1 0) (XYZ 0 0 0)]
     \<lparr>slowMap = None,
      fastMap = Some [(1, \<lparr>Key = XYZ 0 0 0, Value = (0, 0)\<rparr>),
                      (2, \<lparr>Key = XYZ 1 0 0, Value = (1, 0)\<rparr>),
                      (3, \<lparr>Key = XYZ 0 1 0, Value = (0, 1)\<rparr>)]\<rparr>
     \<lparr>slowMap = None,
      fastMap = Some [(1, \<lparr>Key = (XYZ (1 / 4) (1 / 4) 1, XYZ 0 0 0), Value = 1 / 2\<rparr>),
                      (2, \<lparr>Key = (XYZ (1 / 4) (1 / 4) 1, XYZ 1 0 0), Value = 1 / 4\<rparr>),
                      (3, \<lparr>Key = (XYZ (1 / 4) (1 / 4) 1, XYZ 0 1 0), Value = 1 / 4\<rparr>)]\<rparr>
     None
   = Inr \<lparr>slowMap = Some [(XYZ 0 0 0, (0, 0)), (XYZ 1 0 0, (1, 0)), (XYZ 0 1 0, (0, 1)),
                          (XYZ (1 / 4) (1 / 4) 1, (1 / 4, 1 / 4))],
          fastMap = None\<rparr>"
  by (simp add: floater97_def floater97_neighbors_def floater97_nonBoundary_def floater97_result_def
     XYZ_def triangle_neighbors_def add_neighbor_def add_nonBoundary_def build_row_def
     row_neighbor_def solve_column_def write_column_def store_solution_point_def
     Range_entries_def ValueOr_def VertexSlice_def NewCoordMap_def NewSparseMatrix_def
     SparseMatrix_Set_def Store_def Load_def fastToSlow_def slowStore_def enumerate_eq_zip)

text \<open>
  Claim C9. For every mesh and every boundary map (in a state a \<open>CoordMap\<close> can be in) on
  which \<open>floater97\<close> returns, with or without a previous parameterization, so in particular
  for \<open>Floater97\<close>, every key of the boundary map is in the returned map with exactly its
  boundary coordinate; the vertices under which the solver's output is stored are the
  non-boundary ones, and no boundary key is among them.
\<close>

theorem floater97_keeps_boundary:
  assumes "inv_CoordMap hash boundary"
    and "floater97 hash hashE solver m boundary edgeWeights previousParam = Inr result"
    and "Load hash boundary k = Some v"
  shows "Load hash result k = Some v
         \<and> (\<exists>nonBoundary nonBoundaryToIndex.
               floater97_nonBoundary hash m boundary = Inr (nonBoundary, nonBoundaryToIndex)
               \<and> k \<notin> set nonBoundary)"
proof -
  from assms(2) obtain nonBoundary nonBoundaryToIndex solution where
    nb: "floater97_nonBoundary hash m boundary = Inr (nonBoundary, nonBoundaryToIndex)"
    and res: "floater97_result hash boundary nonBoundary solution = Inr result"
    by (auto simp: floater97_def split: sum.splits prod.splits)
  from nonBoundary_not_in_boundary [OF nb [unfolded floater97_nonBoundary_def]]
  have "\<forall>v \<in> set nonBoundary. Load hash boundary v = None"
    by simp
  with assms(3) have k: "k \<notin> set nonBoundary"
    by auto
  from copy_boundary [OF assms(1)]
  obtain r where r: "fold_panic (\<lambda>kv result. Store hash result (fst kv) (snd kv))
                (Range_entries boundary) NewCoordMap = Inr r"
    "inv_CoordMap hash r" "Load hash r = Load hash boundary"
    by blast
  from res r(1)
  have "fold_panic (store_solution_point hash nonBoundary) (enumerate 0 solution) r = Inr result"
    by (simp add: floater97_result_def)
  from fold_solution_other_keys [OF r(2) this k] r(3) assms(3)
  have "Load hash result k = Some v" by simp
  with nb k show ?thesis by blast
qed

theorem floater97_keeps_boundary_witness:
  "inv_CoordMap (\<lambda>c. if c = XYZ 1 0 0 then 2 else if c = XYZ 0 1 0 then 3 else 1)
     \<lparr>slowMap = None,
      fastMap = Some [(1, \<lparr>Key = XYZ 0 0 0, Value = (0 :: real, 0 :: real)\<rparr>),
                      (2, \<lparr>Key = XYZ 1 0 0, Value = (1, 0)\<rparr>),
                      (3, \<lparr>Key = XYZ 0 1 0, Value = (0, 1)\<rparr>)]\<rparr>
   \<and> Load (\<lambda>c. if c = XYZ 1 0 0 then 2 else if c = XYZ 0 1 0 then 3 else 1)
     \<lparr>slowMap = None,
      fastMap = Some [(1, \<lparr>Key = XYZ 0 0 0, Value = (0 :: real, 0 :: real)\<rparr>),
                      (2, \<lparr>Key = XYZ 1 0 0, Value = (1, 0)\<rparr>),
                      (3, \<lparr>Key = XYZ 0 1 0, Value = (0, 1)\<rparr>)]\<rparr>
     (XYZ 1 0 0) = Some (1, 0)
   \<and> Load (\<lambda>c. if c = XYZ 1 0 0 then 2 else if c = XYZ 0 1 0 then 3 else 1)
     \<lparr>slowMap = Some [(XYZ 0 0 0, (0 :: real, 0 :: real)), (XYZ 1 0 0, (1, 0)),
                       (XYZ 0 1 0, (0, 1)), (XYZ (1 / 4) (1 / 4) 1, (1 / 4, 1 / 4))],
      fastMap = None\<rparr>
     (XYZ 1 0 0) = Some (1, 0)"
  (is "inv_CoordMap ?h ?B \<and> Load ?h ?B ?k = Some ?v \<and> Load ?h ?R ?k = Some ?v")
proof -
  have inv: "inv_CoordMap ?h ?B"
    by (simp add: inv_CoordMap_def XYZ_def)
  have ld: "Load ?h ?B ?k = Some ?v"
    by (simp add: Load_def XYZ_def)
  from floater97_keeps_boundary [OF inv floater97_fan_run ld]
  have "Load ?h ?R ?k = Some ?v"
    by (rule conjunct1)
  with inv ld show ?thesis
    by (intro conjI)
qed

subsection \<open>ARAP: constrained vertices\<close>

lemma newARAPOperator_fold:
  "length (snd (fold (newARAPOperator_step cs) [0 ..< n] ([], []))) = n
   \<and> (\<forall>i < n. snd (fold (newARAPOperator_step cs) [0 ..< n] ([], [])) ! i = - 1
                  \<longleftrightarrow> map_of cs i \<noteq> None)"
proof (induction n)
  case 0
  then show ?case by simp
next
  case (Suc n)
  let ?st = "fold (newARAPOperator_step cs) [0 ..< n] ([], [])"
  from Suc.IH have len: "length (snd ?st) = n"
    and old: "\<forall>i < n. snd ?st ! i = - 1 \<longleftrightarrow> map_of cs i \<noteq> None"
    by simp_all
  have f2s: "snd (fold (newARAPOperator_step cs) [0 ..< Suc n] ([], [])) =
      snd ?st @ [if map_of cs n = None then int (length (fst ?st)) else - 1]"
    by (simp add: newARAPOperator_step_def)
  show ?case
  proof (intro conjI allI impI)
    show "length (snd (fold (newARAPOperator_step cs) [0 ..< Suc n] ([], []))) = Suc n"
      unfolding f2s using len by simp
  next
    fix i assume "i < Suc n"
    then consider "i < n" | "i = n" by linarith
    then show "snd (fold (newARAPOperator_step cs) [0 ..< Suc n] ([], [])) ! i = - 1
        \<longleftrightarrow> map_of cs i \<noteq> None"
    proof cases
      case 1
      with old len show ?thesis unfolding f2s by (simp add: nth_append)
    next
      case 2
      with len show ?thesis unfolding f2s by (simp add: nth_append)
    qed
  qed
qed

lemma newARAPOperator_shape:
  fixes l :: "'chol arapOperator"
  assumes "l = newARAPOperator a cs"
  shows "arap l = a" "constraints l = cs" "length (fullToSqueezed l) = length (coords a)"
    "\<forall>i < length (coords a). fullToSqueezed l ! i = - 1 \<longleftrightarrow> map_of cs i \<noteq> None"
  using newARAPOperator_fold [of cs "length (coords a)"] assms
  by (simp_all add: newARAPOperator_def Let_def)

lemma Unsqueeze_enforced:
  assumes "Unsqueeze l squeezed = Inr res"
  shows "enforced l res"
proof -
  from assms have len: "length (fullToSqueezed l) \<le> length (coords (arap l))"
    and res: "res = map (\<lambda>(i, s). if s \<noteq> - 1 then squeezed ! nat s else constraint_at l i)
                  (enumerate 0 (fullToSqueezed l))
                @ replicate (length (coords (arap l)) - length (fullToSqueezed l)) zero3"
    by (auto simp: Unsqueeze_def split: if_splits)
  from len res have "length res = length (coords (arap l))"
    by simp
  moreover have "res ! i = constraint_at l i"
    if "i < length (fullToSqueezed l)" "fullToSqueezed l ! i = - 1" for i
    using that res by (simp add: nth_append nth_enumerate_eq)
  ultimately show ?thesis
    by (simp add: enforced_def)
qed

lemma enforced_same_shape: "same_shape l l' \<Longrightarrow> enforced l out \<Longrightarrow> enforced l' out"
  by (simp add: same_shape_def enforced_def constraint_at_def)

lemma same_shape_refl: "same_shape l l"
  by (simp add: same_shape_def)

lemma same_shape_trans: "same_shape l l1 \<Longrightarrow> same_shape l1 l2 \<Longrightarrow> same_shape l l2"
  by (simp add: same_shape_def)

lemma LinSolve_enforced:
  assumes "LinSolve num l b = Inr (res, l')"
  shows "enforced l res \<and> same_shape l l'"
  using assms
  by (auto simp: LinSolve_def Let_def same_shape_def split: sum.splits if_splits
      dest: Unsqueeze_enforced)

lemma deformMap_loop_enforced:
  assumes "deformMap_loop num a l iter cur rots e = Inr out" "enforced l cur"
  shows "enforced l out"
  using assms
proof (induction num a l iter cur rots e rule: deformMap_loop.induct)
  case (1 num a l iter cur rots e)
  show ?case
  proof (cases "int iter < maxIters a")
    case False
    with "1.prems" show ?thesis by (simp add: deformMap_loop.simps)
  next
    case True
    with "1.prems"(1) obtain cur1 l1 where
      ls: "LinSolve num l (Targets num l rots) = Inr (cur1, l1)"
      by (subst (asm) deformMap_loop.simps) (auto split: sum.splits)
    from LinSolve_enforced [OF ls] have e1: "enforced l cur1" and sh: "same_shape l l1"
      by simp_all
    let ?rots1 = "rotations num a cur1"
    let ?e1 = "energy num a cur1 ?rots1"
    show ?thesis
    proof (cases "int iter + 1 \<ge> minIters a \<and> 1 - ?e1 / e < tolerance a")
      case stop: True
      with "1.prems"(1) True ls have "out = cur1"
        by (subst (asm) deformMap_loop.simps) (simp add: Let_def)
      with e1 show ?thesis by simp
    next
      case go: False
      with "1.prems"(1) True ls
      have run: "deformMap_loop num a l1 (iter + 1) cur1 ?rots1 ?e1 = Inr out"
        by (subst (asm) deformMap_loop.simps) (simp add: Let_def)
      have "enforced l1 out"
        using "1.IH" [OF True ls refl refl refl go run]
          enforced_same_shape [OF sh e1]
        by simp
      with sh show ?thesis
        by (simp add: same_shape_def enforced_def constraint_at_def)
    qed
  qed
qed

lemma deformMap_enforced:
  assumes "deformMap num a l guess = Inr out"
  shows "enforced l out"
proof -
  from assms obtain g l1 sq cur where
    init: "(case guess of None \<Rightarrow> laplace num a l | Some g \<Rightarrow> Inr (g, l)) = Inr (g, l1)"
    and sq: "Squeeze l1 g = Inr sq" and cur: "Unsqueeze l1 sq = Inr cur"
    and loop: "deformMap_loop num a l1 0 cur (rotations num a cur)
                 (energy num a cur (rotations num a cur)) = Inr out"
    by (auto simp: deformMap_def Let_def split: sum.splits prod.splits)
  have sh: "same_shape l l1"
  proof (cases guess)
    case None
    with init have "LinSolve num l (Apply (newARAPOperator a [] :: 'a arapOperator) (coords a))
        = Inr (g, l1)"
      by (simp add: laplace_def Let_def)
    from LinSolve_enforced [OF this] show ?thesis by simp
  next
    case (Some g')
    with init show ?thesis by (simp add: same_shape_refl)
  qed
  from deformMap_loop_enforced [OF loop Unsqueeze_enforced [OF cur]]
  have "enforced l1 out" .
  with sh show ?thesis
    by (simp add: same_shape_def enforced_def constraint_at_def)
qed

lemma map_of_fold_alist_update:
  "map_of (fold (\<lambda>kv m. AList.update (f kv) (g kv) m) zs acc) =
     map_of acc ++ map_of (rev (map (\<lambda>kv. (f kv, g kv)) zs))"
proof (induction zs arbitrary: acc)
  case Nil
  then show ?case by simp
next
  case (Cons z zs)
  have "map_of (AList.update (f z) (g z) acc) ++ map_of (rev (map (\<lambda>kv. (f kv, g kv)) zs)) =
        map_of acc ++ ([f z \<mapsto> g z] ++ map_of (rev (map (\<lambda>kv. (f kv, g kv)) zs)))"
    (is "?l = ?r")
  proof (rule ext)
    fix k
    show "?l k = ?r k"
      by (simp add: update_conv' map_add_def split: option.splits)
  qed
  then show ?case
    by (simp add: Cons.IH)
qed

lemma enumerate_as_map: "enumerate 0 xs = map (\<lambda>i. (i, xs ! i)) [0 ..< length xs]"
  by (rule nth_equalityI) (simp_all add: nth_enumerate_eq)

lemma map_of_index_coords:
  "map_of (index_coords cs) = map_of (rev (map (\<lambda>i. (cs ! i, i)) [0 ..< length cs]))"
proof -
  have "index_coords cs = fold (\<lambda>kv m. AList.update (snd kv) (fst kv) m) (enumerate 0 cs) []"
    by (simp add: index_coords_def case_prod_unfold)
  then show ?thesis
    by (simp add: map_of_fold_alist_update enumerate_as_map o_def)
qed

lemma index_coords_SomeD:
  assumes "map_of (index_coords cs) c = Some i"
  shows "i < length cs \<and> cs ! i = c"
proof -
  from assms have "(c, i) \<in> set (rev (map (\<lambda>i. (cs ! i, i)) [0 ..< length cs]))"
    unfolding map_of_index_coords by (rule map_of_SomeD)
  then show ?thesis by auto
qed

lemma map_of_coordsToMap:
  assumes "coordsToMap a s = Inr res" "length s = length (coords a)"
  shows "map_of res = map_of (rev (map (\<lambda>i. (coords a ! i, s ! i)) [0 ..< length (coords a)]))"
proof -
  from assms(1)
  have "res = fold (\<lambda>kv m. AList.update (coords a ! fst kv) (snd kv) m) (enumerate 0 s) []"
    by (auto simp add: coordsToMap_def case_prod_unfold split: if_splits)
  then show ?thesis
    using assms(2) by (simp add: map_of_fold_alist_update enumerate_as_map o_def)
qed

lemma coordsToMap_lookup:
  assumes "coordsToMap a s = Inr res" "length s = length (coords a)"
    and "map_of (index_coords (coords a)) c = Some i"
  shows "map_of res c = Some (s ! i)"
proof -
  let ?A = "rev (map (\<lambda>i. (coords a ! i, i)) [0 ..< length (coords a)])"
  have "rev (map (\<lambda>i. (coords a ! i, s ! i)) [0 ..< length (coords a)]) =
        map (\<lambda>(k, v). (k, s ! v)) ?A"
    by (simp add: rev_map o_def)
  then have "map_of res = map_option (\<lambda>v. s ! v) \<circ> map_of ?A"
    unfolding map_of_coordsToMap [OF assms(1,2)] by (simp only: map_of_map)
  with assms(3) show ?thesis
    by (simp add: map_of_index_coords)
qed

lemma indexConstraints_untouched:
  assumes "fold_panic (indexConstraints_step a) cs acc = Inr ic"
    and "\<forall>(c, t) \<in> set cs. map_of (coordToIdx a) c \<noteq> Some j"
  shows "map_of ic j = map_of acc j"
  using assms
proof (induction cs arbitrary: acc)
  case Nil
  then show ?case by simp
next
  case (Cons ct cs)
  obtain c t where ct: "ct = (c, t)" by (cases ct)
  from Cons.prems(1) ct obtain i where i: "map_of (coordToIdx a) c = Some i"
    and rest: "fold_panic (indexConstraints_step a) cs (AList.update i t acc) = Inr ic"
    by (auto simp: indexConstraints_step_def split: option.splits)
  from Cons.prems(2) ct i have "i \<noteq> j" by auto
  moreover from Cons.IH [OF rest] Cons.prems(2)
  have "map_of ic j = map_of (AList.update i t acc) j" by simp
  ultimately show ?case by (simp add: update_conv')
qed

lemma indexConstraints_lookup:
  assumes "fold_panic (indexConstraints_step a) cs acc = Inr ic"
    and "distinct (map fst cs)"
    and "\<forall>c c' i. map_of (coordToIdx a) c = Some i \<longrightarrow> map_of (coordToIdx a) c' = Some i
           \<longrightarrow> c = c'"
    and "(c, t) \<in> set cs"
  shows "\<exists>i. map_of (coordToIdx a) c = Some i \<and> map_of ic i = Some t"
  using assms(1,2,4)
proof (induction cs arbitrary: acc)
  case Nil
  then show ?case by simp
next
  case (Cons ct cs)
  obtain c0 t0 where ct: "ct = (c0, t0)" by (cases ct)
  from Cons.prems(1) ct obtain i0 where i0: "map_of (coordToIdx a) c0 = Some i0"
    and rest: "fold_panic (indexConstraints_step a) cs (AList.update i0 t0 acc) = Inr ic"
    by (auto simp: indexConstraints_step_def split: option.splits)
  show ?case
  proof (cases "(c, t) \<in> set cs")
    case True
    with Cons.IH [OF rest] Cons.prems(2) show ?thesis by simp
  next
    case False
    with Cons.prems(3) ct have eq: "c = c0" "t = t0" by auto
    have "\<forall>(c', t') \<in> set cs. map_of (coordToIdx a) c' \<noteq> Some i0"
    proof (clarify)
      fix c' t' assume in_cs: "(c', t') \<in> set cs" and "map_of (coordToIdx a) c' = Some i0"
      with i0 assms(3) have "c0 = c'" by blast
      with in_cs Cons.prems(2) ct show False by force
    qed
    from indexConstraints_untouched [OF rest this]
    have "map_of ic i0 = Some t0" by (simp add: update_conv')
    with i0 eq show ?thesis by simp
  qed
qed

lemma indexConstraints_eq:
  "indexConstraints a cs = fold_panic (indexConstraints_step a) cs []"
  by (simp add: indexConstraints_def)

lemma constrained_output:
  fixes num :: "'chol numerics"
  assumes wf: "coordToIdx a = index_coords (coords a)"
    and dist: "distinct (map fst cs)"
    and ct: "(c, t) \<in> set cs"
    and ic: "indexConstraints a cs = Inr ic"
    and out: "deformMap num a (newARAPOperator a ic) guess = Inr out"
  shows "\<exists>i. map_of (coordToIdx a) c = Some i \<and> i < length out \<and> out ! i = t
             \<and> length out = length (coords a)"
proof -
  let ?l = "newARAPOperator a ic :: 'chol arapOperator"
  have inj: "\<forall>c c' i. map_of (coordToIdx a) c = Some i \<longrightarrow> map_of (coordToIdx a) c' = Some i
           \<longrightarrow> c = c'"
    using index_coords_SomeD unfolding wf by blast
  from indexConstraints_lookup [OF ic [unfolded indexConstraints_eq] dist inj ct]
  obtain i where i: "map_of (coordToIdx a) c = Some i" "map_of ic i = Some t"
    by blast
  from i(1) index_coords_SomeD have lt: "i < length (coords a)"
    unfolding wf by blast
  note shape = newARAPOperator_shape [OF refl, of a ic, where ?'chol = 'chol]
  from deformMap_enforced [OF out] have enf: "enforced ?l out" .
  from enf shape(1) have len: "length out = length (coords a)"
    by (simp add: enforced_def)
  from shape(4) lt i(2) have "fullToSqueezed ?l ! i = - 1"
    by simp
  with enf lt shape(3) have "out ! i = constraint_at ?l i"
    by (simp add: enforced_def)
  with shape(2) i(2) have "out ! i = t"
    by (simp add: constraint_at_def)
  with i(1) lt len show ?thesis by auto
qed

lemma DeformMap_triangle_run:
  "DeformMap
     \<lparr>NewMatrix3Columns = (\<lambda>a b c. [X a, X b, X c, Y a, Y b, Y c, Z a, Z b, Z c]),
      SVD = (\<lambda>m. ([1, 0, 0, 0, 1, 0, 0, 0, 1], m, [1, 0, 0, 0, 1, 0, 0, 0, 1])),
      Mul = (\<lambda>a b. a), Transpose = (\<lambda>a. a), Det = (\<lambda>a. 1), MulColumn = (\<lambda>m c. c),
      NewSparseCholesky = (\<lambda>m. ()), ApplyInverseVec3 = (\<lambda>c b. b)\<rparr>
     \<lparr>coordToIdx = [(XYZ 0 0 0, 0), (XYZ 1 0 0, 1), (XYZ 0 1 0, 2)],
      coords = [XYZ 0 0 0, XYZ 1 0 0, XYZ 0 1 0], neighbors = [[1, 2], [0, 2], [0, 1]],
      weights = [[1, 1], [1, 1], [1, 1]], rotWeights = [[1, 1], [1, 1], [1, 1]],
      triangles = [(0, 1, 2)], tolerance = 1 / 1000, maxIters = 2, minIters = 2\<rparr>
     [(XYZ 0 0 0, XYZ 0 0 1)] None
   = Inr [(XYZ 0 0 0, XYZ 0 0 1), (XYZ 1 0 0, XYZ 1 (- (1 / 2)) 1),
          (XYZ 0 1 0, XYZ (- (1 / 2)) 1 1)]"
  by code_simp

text \<open>
  Claim C5. For every ARAP instance whose index is the one \<open>NewARAPWeighted\<close> builds for
  its coordinates, whatever its iteration limits and tolerance, for every constraint map
  and every one of its pairs \<open>(c, t)\<close>: when \<open>DeformMap\<close> returns, with or without an initial
  guess, the returned map takes \<open>c\<close> to exactly \<open>t\<close>; when \<open>Deform\<close> returns, its mesh is built
  from an output slice that holds exactly \<open>t\<close> at the index of \<open>c\<close>. A constraint map whose
  keys are not all vertices of the mesh makes both panic.
\<close>

theorem ARAP_constraints_exact:
  assumes wf: "coordToIdx a = index_coords (coords a)"
    and dist: "distinct (map fst cs)"
    and ct: "(c, t) \<in> set cs"
  shows "(\<forall>res. DeformMap num a cs guess = Inr res \<longrightarrow> map_of res c = Some t)
       \<and> (\<forall>mesh. Deform num a cs = Inr mesh \<longrightarrow>
            (\<exists>i out. map_of (coordToIdx a) c = Some i \<and> i < length out \<and> out ! i = t
                     \<and> coordsToMesh a out = Inr mesh))"
proof (intro conjI allI impI)
  fix res assume "DeformMap num a cs guess = Inr res"
  then obtain ic g out where ic: "indexConstraints a cs = Inr ic"
    and out: "deformMap num a (newARAPOperator a ic) g = Inr out"
    and res: "coordsToMap a out = Inr res"
    by (auto simp: DeformMap_def split: sum.splits)
  from constrained_output [OF wf dist ct ic out]
  obtain i where i: "map_of (coordToIdx a) c = Some i" "out ! i = t"
    "length out = length (coords a)"
    by blast
  from coordsToMap_lookup [OF res i(3) i(1) [unfolded wf]] i(2)
  show "map_of res c = Some t" by simp
next
  fix mesh assume "Deform num a cs = Inr mesh"
  then obtain ic out where ic: "indexConstraints a cs = Inr ic"
    and out: "deformMap num a (newARAPOperator a ic) None = Inr out"
    and mesh: "coordsToMesh a out = Inr mesh"
    by (auto simp: Deform_def split: sum.splits)
  from constrained_output [OF wf dist ct ic out] mesh
  show "\<exists>i out. map_of (coordToIdx a) c = Some i \<and> i < length out \<and> out ! i = t
                     \<and> coordsToMesh a out = Inr mesh"
    by blast
qed

theorem ARAP_constraints_exact_witness:
  "coordToIdx
     \<lparr>coordToIdx = [(XYZ 0 0 0, 0), (XYZ 1 0 0, 1), (XYZ 0 1 0, 2)],
      coords = [XYZ 0 0 0, XYZ 1 0 0, XYZ 0 1 0], neighbors = [[1, 2], [0, 2], [0, 1]],
      weights = [[1, 1], [1, 1], [1, 1]], rotWeights = [[1, 1], [1, 1], [1, 1]],
      triangles = [(0, 1, 2)], tolerance = 1 / 1000, maxIters = 2, minIters = 2\<rparr>
     = index_coords (coords
     \<lparr>coordToIdx = [(XYZ 0 0 0, 0), (XYZ 1 0 0, 1), (XYZ 0 1 0, 2)],
      coords = [XYZ 0 0 0, XYZ 1 0 0, XYZ 0 1 0], neighbors = [[1, 2], [0, 2], [0, 1]],
      weights = [[1, 1], [1, 1], [1, 1]], rotWeights = [[1, 1], [1, 1], [1, 1]],
      triangles = [(0, 1, 2)], tolerance = 1 / 1000, maxIters = 2, minIters = 2\<rparr>)
   \<and> distinct (map fst [(XYZ 0 0 0, XYZ 0 0 1)])
   \<and> (XYZ 0 0 0, XYZ 0 0 1) \<in> set [(XYZ 0 0 0, XYZ 0 0 1)]
   \<and> map_of [(XYZ 0 0 0, XYZ 0 0 1), (XYZ 1 0 0, XYZ 1 (- (1 / 2)) 1),
              (XYZ 0 1 0, XYZ (- (1 / 2)) 1 1)] (XYZ 0 0 0) = Some (XYZ 0 0 1)"
  (is "coordToIdx ?a = index_coords (coords ?a) \<and> distinct (map fst ?cs) \<and> ?ct \<and> ?res")
proof -
  have wf: "coordToIdx ?a = index_coords (coords ?a)"
    by (simp add: index_coords_def XYZ_def)
  have dist: "distinct (map fst ?cs)"
    by simp
  have ct: "?ct"
    by simp
  from ARAP_constraints_exact [OF wf dist ct] DeformMap_triangle_run
  have res: "?res"
    by blast
  show ?thesis
    by (rule conjI [OF wf conjI [OF dist conjI [OF ct res]]])
qed

end
